theory Spec2Isabelle
  imports Main "HOL-Library.AList"
begin

section \<open>Paths\<close>

text \<open>
  A \<^verbatim>\<open>pathlib.Path\<close> is modelled by its list of components. An absolute path
  starts with the component \<open>''/''\<close>; the empty list is the current working directory
  (\<^verbatim>\<open>Path("")\<close> and \<^verbatim>\<open>Path(".")\<close>). The flavour decides which characters separate
  components when a string is parsed: \<^verbatim>\<open>/\<close> on POSIX, \<^verbatim>\<open>/\<close> and the backslash on
  Windows. A Windows drive such as \<^verbatim>\<open>C:\<close> is kept as an ordinary first component.
  Symbolic links, \<^verbatim>\<open>..\<close> and case-insensitive file systems are outside the model.
\<close>

type_synonym path = "string list"

datatype flavour = Posix | Windows

definition backslash :: char where
  "backslash = CHR 0x5C"

fun is_sep :: "flavour \<Rightarrow> char \<Rightarrow> bool" where
  "is_sep Posix c = (c = CHR ''/'')"
| "is_sep Windows c = (c = CHR ''/'' \<or> c = backslash)"

fun split_on :: "(char \<Rightarrow> bool) \<Rightarrow> string \<Rightarrow> string list" where
  "split_on P [] = [[]]"
| "split_on P (c # cs) =
     (if P c then [] # split_on P cs
      else (case split_on P cs of [] \<Rightarrow> [[c]] | w # ws \<Rightarrow> (c # w) # ws))"

definition Path :: "flavour \<Rightarrow> string \<Rightarrow> path" where
  "Path fl s =
     (let comps = filter (\<lambda>c. c \<noteq> [] \<and> c \<noteq> ''.'') (split_on (is_sep fl) s)
      in if s \<noteq> [] \<and> is_sep fl (hd s) then ''/'' # comps else comps)"

text \<open>\<^verbatim>\<open>PurePath.suffix\<close>: the part of the name from its last dot on, when that dot
  is neither the first nor the last character of the name; otherwise empty.\<close>

definition suffix_of :: "string \<Rightarrow> string" where
  "suffix_of n =
     (let r = takeWhile (\<lambda>c. c \<noteq> CHR ''.'') (rev n)
      in if CHR ''.'' \<in> set n \<and> r \<noteq> [] \<and> Suc (length r) < length n
         then CHR ''.'' # rev r else [])"

definition stem :: "string \<Rightarrow> string" where
  "stem n = take (length n - length (suffix_of n)) n"

text \<open>\<^verbatim>\<open>PurePath.with_suffix\<close>: raises \<^verbatim>\<open>ValueError\<close> (here \<open>None\<close>) when the suffix
  holds a separator, does not start with a dot or is a lone dot, or when the path has
  no name.\<close>

definition with_suffix :: "flavour \<Rightarrow> path \<Rightarrow> string \<Rightarrow> path option" where
  "with_suffix fl p suf =
     (if (\<exists>c \<in> set suf. is_sep fl c) then None
      else if (suf \<noteq> [] \<and> hd suf \<noteq> CHR ''.'') \<or> suf = ''.'' then None
      else if p = [] \<or> p = [''/''] then None
      else Some (butlast p @ [stem (last p) @ suf]))"

section \<open>The file system\<close>

text \<open>
  A file holds raw bytes or, for the failure report written through
  \<^verbatim>\<open>DataFrame.to_csv\<close>, a table: the column names and the rows (row index, path).
  The file system is an association list from paths to nodes, in directory-listing
  order. The working directory \<open>[]\<close> and the root \<open>[''/'']\<close> always exist.
\<close>

datatype content = Raw string | Table "string list" "(nat \<times> path) list"

datatype node = Dir | File content

type_synonym filesystem = "(path \<times> node) list"

datatype error =
    PathNotFound string
  | FinderPathNotFound
  | FileExistsError
  | FileNotFoundError
  | NotADirectoryError
  | IsADirectoryError
  | SameFileError
  | BatchIncomplete path

definition path_exists :: "filesystem \<Rightarrow> path \<Rightarrow> bool" where
  "path_exists fs p = (p = [] \<or> p = [''/''] \<or> map_of fs p \<noteq> None)"

definition is_dir :: "filesystem \<Rightarrow> path \<Rightarrow> bool" where
  "is_dir fs p = (p = [] \<or> p = [''/''] \<or> map_of fs p = Some Dir)"

definition is_file :: "filesystem \<Rightarrow> path \<Rightarrow> bool" where
  "is_file fs p = (p \<noteq> [] \<and> p \<noteq> [''/''] \<and> (\<exists>c. map_of fs p = Some (File c)))"

text \<open>\<^verbatim>\<open>Path.mkdir(parents=True, exist_ok=...)\<close>.\<close>

function Path_mkdir :: "bool \<Rightarrow> filesystem \<Rightarrow> path \<Rightarrow> error + filesystem" where
  "Path_mkdir exist_ok fs p =
     (if path_exists fs p
      then (if exist_ok \<and> is_dir fs p then Inr fs else Inl FileExistsError)
      else if is_dir fs (butlast p) then Inr (fs @ [(p, Dir)])
      else if path_exists fs (butlast p) then Inl NotADirectoryError
      else (case Path_mkdir True fs (butlast p) of
              Inl e \<Rightarrow> Inl e
            | Inr fs' \<Rightarrow> Inr (fs' @ [(p, Dir)])))"
  by pat_completeness auto
termination
  by (relation "measure (\<lambda>(e, fs, p). length p)") (auto simp: path_exists_def)

text \<open>Opening a path for writing and storing the content.\<close>

definition write_file :: "filesystem \<Rightarrow> path \<Rightarrow> content \<Rightarrow> error + filesystem" where
  "write_file fs p c =
     (if is_dir fs p then Inl IsADirectoryError
      else if \<not> is_dir fs (butlast p) then Inl FileNotFoundError
      else Inr (AList.update p (File c) fs))"

text \<open>\<^verbatim>\<open>shutil.copyfile\<close>.\<close>

definition copyfile :: "filesystem \<Rightarrow> path \<Rightarrow> path \<Rightarrow> error + filesystem" where
  "copyfile fs src dst =
     (case map_of fs src of
        Some (File c) \<Rightarrow> if src = dst then Inl SameFileError else write_file fs dst c
      | Some Dir \<Rightarrow> Inl IsADirectoryError
      | None \<Rightarrow> Inl FileNotFoundError)"

text \<open>\<^verbatim>\<open>shutil.rmtree\<close>: removes the directory and everything below it.\<close>

definition rmtree :: "filesystem \<Rightarrow> path \<Rightarrow> error + filesystem" where
  "rmtree fs p =
     (case map_of fs p of
        Some Dir \<Rightarrow> Inr (filter (\<lambda>(q, n). take (length p) q \<noteq> p) fs)
      | Some (File c) \<Rightarrow> Inl NotADirectoryError
      | None \<Rightarrow> Inl FileNotFoundError)"

text \<open>\<^verbatim>\<open>path.glob("*.suffix")\<close>: the immediate children of a directory whose name ends
  with a dot and the suffix, in listing order.\<close>

definition ends_with :: "string \<Rightarrow> string \<Rightarrow> bool" where
  "ends_with n pat = (length pat \<le> length n \<and> drop (length n - length pat) n = pat)"

definition glob :: "filesystem \<Rightarrow> path \<Rightarrow> string \<Rightarrow> path list" where
  "glob fs d suf =
     (if is_dir fs d
      then filter (\<lambda>q. q \<noteq> [] \<and> butlast q = d \<and> ends_with (last q) (CHR ''.'' # suf))
             (map fst fs)
      else [])"

declare Path_mkdir.simps [simp del]

section \<open>The converter\<close>

record job =
  folder_input_path :: path
  folder_output_path :: path
  wmf_folder :: path
  output_type :: string

text \<open>\<^verbatim>\<open>EmzConverter.check_paths\<close>. The result pairs the file system after the call
  with the raised error or the two returned paths.\<close>

definition check_paths ::
  "flavour \<Rightarrow> string \<Rightarrow> string option \<Rightarrow> filesystem \<Rightarrow> filesystem \<times> (error + path \<times> path)" where
  "check_paths fl folder_input folder_output fs =
     (if \<not> path_exists fs (Path fl folder_input) then (fs, Inl (PathNotFound folder_input))
      else
        let out_str = (case folder_output of
                         None \<Rightarrow> folder_input @ (backslash # ''output_png_images'')
                       | Some s \<Rightarrow> s)
        in if \<not> path_exists fs (Path fl out_str)
           then (case Path_mkdir False fs (Path fl out_str) of
                   Inl e \<Rightarrow> (fs, Inl e)
                 | Inr fs' \<Rightarrow> (fs', Inr (Path fl folder_input, Path fl out_str)))
           else (fs, Inr (Path fl folder_input, Path fl out_str)))"

text \<open>\<^verbatim>\<open>EmzConverter.__init__\<close>.\<close>

definition EmzConverter_init ::
  "flavour \<Rightarrow> string \<Rightarrow> string option \<Rightarrow> string \<Rightarrow> filesystem \<Rightarrow> filesystem \<times> (error + job)" where
  "EmzConverter_init fl folder_input folder_output out_type fs =
     (case check_paths fl folder_input folder_output fs of
        (fs1, Inl e) \<Rightarrow> (fs1, Inl e)
      | (fs1, Inr (inp, outp)) \<Rightarrow>
          (case Path_mkdir True fs1 (inp @ [''wmf_files'']) of
             Inl e \<Rightarrow> (fs1, Inl e)
           | Inr fs2 \<Rightarrow>
               (fs2, Inr \<lparr>folder_input_path = inp, folder_output_path = outp,
                          wmf_folder = inp @ [''wmf_files''], output_type = out_type\<rparr>)))"

text \<open>\<^verbatim>\<open>EmzConverter.find_files\<close>.\<close>

definition find_files :: "filesystem \<Rightarrow> path \<Rightarrow> string \<Rightarrow> error + path list" where
  "find_files fs p suf =
     (if \<not> path_exists fs p then Inl FinderPathNotFound else Inr (glob fs p suf))"

text \<open>
  The image-decoding collaborator (\<^verbatim>\<open>PIL.Image\<close>) is a parameter: \<open>Image_open\<close> maps
  the bytes of a file to an image, \<open>Image_save\<close> maps an image and the target path
  (whose extension selects the format) to the encoded bytes. \<open>None\<close> stands for any
  exception the library raises. Saving is taken as atomic: it raises before it writes.
\<close>

record 'img pil =
  Image_open :: "content \<Rightarrow> 'img option"
  Image_save :: "'img \<Rightarrow> path \<Rightarrow> content option"

text \<open>\<^verbatim>\<open>convert_emz_files_to_wmf\<close>: the loop over the listed files, then the method.
  The suffix \<^verbatim>\<open>.wmf\<close> is valid and a listed file has a name, so
  \<^verbatim>\<open>file_.with_suffix(".wmf").name\<close> is the stem of the name followed by \<^verbatim>\<open>.wmf\<close>.\<close>

fun copy_loop :: "job \<Rightarrow> filesystem \<Rightarrow> path list \<Rightarrow> filesystem \<times> (error + unit)" where
  "copy_loop j fs [] = (fs, Inr ())"
| "copy_loop j fs (f # rest) =
     (case copyfile fs f (wmf_folder j @ [stem (last f) @ ''.wmf'']) of
        Inl e \<Rightarrow> (fs, Inl e)
      | Inr fs' \<Rightarrow> copy_loop j fs' rest)"

definition convert_emz_files_to_wmf :: "job \<Rightarrow> filesystem \<Rightarrow> filesystem \<times> (error + unit)" where
  "convert_emz_files_to_wmf j fs =
     (case find_files fs (folder_input_path j) ''emz'' of
        Inl e \<Rightarrow> (fs, Inl e)
      | Inr emz_files \<Rightarrow> copy_loop j fs emz_files)"

text \<open>The body of the \<^verbatim>\<open>try\<close> block of \<^verbatim>\<open>convert_wmf_to_specified_output_type\<close> for
  one staged file: \<open>None\<close> when any statement of it raises, otherwise the file system
  with the output written.\<close>

definition output_path :: "flavour \<Rightarrow> job \<Rightarrow> path \<Rightarrow> path option" where
  "output_path fl j f =
     (case with_suffix fl f (CHR ''.'' # output_type j) of
        None \<Rightarrow> None
      | Some g \<Rightarrow> Some (folder_output_path j @ [last g]))"

definition try_convert ::
  "'img pil \<Rightarrow> flavour \<Rightarrow> job \<Rightarrow> filesystem \<Rightarrow> path \<Rightarrow> filesystem option" where
  "try_convert pl fl j fs f =
     (case map_of fs f of
        Some (File c) \<Rightarrow>
          (case Image_open pl c of
             None \<Rightarrow> None
           | Some img \<Rightarrow>
               (case output_path fl j f of
                  None \<Rightarrow> None
                | Some file_output_type \<Rightarrow>
                    (case Image_save pl img file_output_type of
                       None \<Rightarrow> None
                     | Some bytes \<Rightarrow>
                         (case write_file fs file_output_type bytes of
                            Inl e \<Rightarrow> None
                          | Inr fs' \<Rightarrow> Some fs'))))
      | _ \<Rightarrow> None)"

fun decode_loop ::
  "'img pil \<Rightarrow> flavour \<Rightarrow> job \<Rightarrow> filesystem \<Rightarrow> path list \<Rightarrow> path list
     \<Rightarrow> filesystem \<times> path list" where
  "decode_loop pl fl j fs errors [] = (fs, errors)"
| "decode_loop pl fl j fs errors (f # rest) =
     (case try_convert pl fl j fs f of
        None \<Rightarrow> decode_loop pl fl j fs (errors @ [f]) rest
      | Some fs' \<Rightarrow> decode_loop pl fl j fs' errors rest)"

text \<open>\<^verbatim>\<open>pd.DataFrame(errors_, columns=["file_names"]).to_csv(csv_file)\<close>: an unnamed
  index column and the column \<^verbatim>\<open>file_names\<close>, one row per failed file.\<close>

definition report_table :: "path list \<Rightarrow> content" where
  "report_table errors = Table [[], ''file_names''] (zip [0..<length errors] errors)"

definition csv_file :: "flavour \<Rightarrow> path" where
  "csv_file fl = Path fl ''.'' @ [''unsuccessful_conversions.csv'']"

definition convert_wmf_to_specified_output_type ::
  "'img pil \<Rightarrow> flavour \<Rightarrow> job \<Rightarrow> filesystem \<Rightarrow> filesystem \<times> (error + unit)" where
  "convert_wmf_to_specified_output_type pl fl j fs =
     (case find_files fs (wmf_folder j) ''wmf'' of
        Inl e \<Rightarrow> (fs, Inl e)
      | Inr wmf_files \<Rightarrow>
          (case decode_loop pl fl j fs [] wmf_files of
             (fs1, errors) \<Rightarrow>
               (case rmtree fs1 (wmf_folder j) of
                  Inl e \<Rightarrow> (fs1, Inl e)
                | Inr fs2 \<Rightarrow>
                    if length errors > 0
                    then (case write_file fs2 (csv_file fl) (report_table errors) of
                            Inl e \<Rightarrow> (fs2, Inl e)
                          | Inr fs3 \<Rightarrow> (fs3, Inl (BatchIncomplete (csv_file fl))))
                    else (fs2, Inr ()))))"

text \<open>\<^verbatim>\<open>EmzConverter.convert\<close>, and a whole run: construction followed by
  \<^verbatim>\<open>convert()\<close>.\<close>

definition convert ::
  "'img pil \<Rightarrow> flavour \<Rightarrow> job \<Rightarrow> filesystem \<Rightarrow> filesystem \<times> (error + unit)" where
  "convert pl fl j fs =
     (case convert_emz_files_to_wmf j fs of
        (fs1, Inl e) \<Rightarrow> (fs1, Inl e)
      | (fs1, Inr u) \<Rightarrow> convert_wmf_to_specified_output_type pl fl j fs1)"

definition run ::
  "'img pil \<Rightarrow> flavour \<Rightarrow> string \<Rightarrow> string option \<Rightarrow> string \<Rightarrow> filesystem
     \<Rightarrow> filesystem \<times> (error + unit)" where
  "run pl fl folder_input folder_output out_type fs =
     (case EmzConverter_init fl folder_input folder_output out_type fs of
        (fs1, Inl e) \<Rightarrow> (fs1, Inl e)
      | (fs1, Inr j) \<Rightarrow> convert pl fl j fs1)"

section \<open>Notions used to state the claims\<close>

text \<open>The staged copy of an input file: the path \<^verbatim>\<open>convert_emz_files_to_wmf\<close> copies it to.\<close>

definition staged_path :: "job \<Rightarrow> path \<Rightarrow> path" where
  "staged_path j f = wmf_folder j @ [stem (last f) @ ''.wmf'']"

text \<open>The output file with the base name of a source file and the configured extension.\<close>

definition output_file :: "job \<Rightarrow> path \<Rightarrow> path" where
  "output_file j f = folder_output_path j @ [stem (last f) @ CHR ''.'' # output_type j]"

text \<open>What the \<^verbatim>\<open>try\<close> block computes for a staged file before it writes: the target path
  and the encoded bytes, or \<open>None\<close> when opening, naming or encoding raises.\<close>

definition decoded :: "'img pil \<Rightarrow> flavour \<Rightarrow> job \<Rightarrow> filesystem \<Rightarrow> path \<Rightarrow> (path \<times> content) option" where
  "decoded pl fl j fs f =
     (case map_of fs f of
        Some (File c) \<Rightarrow>
          (case Image_open pl c of
             None \<Rightarrow> None
           | Some img \<Rightarrow>
               (case output_path fl j f of
                  None \<Rightarrow> None
                | Some t \<Rightarrow>
                    (case Image_save pl img t of
                       None \<Rightarrow> None
                     | Some b \<Rightarrow> Some (t, b))))
      | _ \<Rightarrow> None)"

text \<open>The \<^verbatim>\<open>try\<close> block completes for a staged file: it decodes, and the target can be
  written (no directory sits there and the output directory exists).\<close>

definition writes :: "'img pil \<Rightarrow> flavour \<Rightarrow> job \<Rightarrow> filesystem \<Rightarrow> path \<Rightarrow> bool" where
  "writes pl fl j fs f =
     (case decoded pl fl j fs f of
        None \<Rightarrow> False
      | Some (t, b) \<Rightarrow> \<not> is_dir fs t \<and> is_dir fs (folder_output_path j))"

text \<open>The effect of one loop iteration on the lookup function of the file system.\<close>

definition put_output ::
  "'img pil \<Rightarrow> flavour \<Rightarrow> job \<Rightarrow> filesystem \<Rightarrow> path \<Rightarrow> (path \<rightharpoonup> node) \<Rightarrow> (path \<rightharpoonup> node)" where
  "put_output pl fl j fs x m =
     (if writes pl fl j fs x
      then (case decoded pl fl j fs x of Some (t, b) \<Rightarrow> m(t \<mapsto> File b) | None \<Rightarrow> m)
      else m)"

text \<open>The file system after a stage 1 that copies every \<^verbatim>\<open>.emz\<close> entry to a new staged
  file.\<close>

definition staged_fs_of :: "job \<Rightarrow> filesystem \<Rightarrow> filesystem" where
  "staged_fs_of j fs =
     fs @ map (\<lambda>x. (staged_path j x, the (map_of fs x))) (glob fs (folder_input_path j) ''emz'')"

text \<open>The file system \<^verbatim>\<open>shutil.rmtree\<close> leaves when the staging directory is removed.\<close>

definition without_staging :: "job \<Rightarrow> filesystem \<Rightarrow> filesystem" where
  "without_staging j fs =
     filter (\<lambda>(q, n). take (length (wmf_folder j)) q \<noteq> wmf_folder j) fs"

text \<open>The names in a directory, as \<^verbatim>\<open>os.listdir\<close> returns them: used to state what a run
  leaves in the output directory.\<close>

definition listdir :: "filesystem \<Rightarrow> path \<Rightarrow> string list" where
  "listdir fs d = map last (filter (\<lambda>q. q \<noteq> [] \<and> q \<noteq> [''/''] \<and> butlast q = d) (map fst fs))"



section \<open>Example data\<close>

text \<open>A decoder that rejects the bytes \<^verbatim>\<open>corrupt\<close>, a job and a staged file system,
  used to run the model on concrete inputs.\<close>

definition demo_pil :: "string pil" where
  "demo_pil =
     \<lparr>Image_open = (\<lambda>c. case c of
                        Raw s \<Rightarrow> if s = ''corrupt'' then None else Some s
                      | Table h r \<Rightarrow> None),
      Image_save = (\<lambda>img p. Some (Raw (''png:'' @ img)))\<rparr>"

definition demo_job :: job where
  "demo_job =
     \<lparr>folder_input_path = [''in''], folder_output_path = [''out''],
      wmf_folder = [''in'', ''wmf_files''], output_type = ''png''\<rparr>"

definition staged_fs :: filesystem where
  "staged_fs =
     [([''in''], Dir), ([''out''], Dir), ([''in'', ''wmf_files''], Dir),
      ([''in'', ''wmf_files'', ''a.wmf''], File (Raw ''A'')),
      ([''in'', ''wmf_files'', ''corrupt.wmf''], File (Raw ''corrupt'')),
      ([''in'', ''wmf_files'', ''b.wmf''], File (Raw ''B''))]"

definition staged_fs_done :: filesystem where
  "staged_fs_done = staged_fs @ [([''out'', ''a.png''], File (Raw ''png:A'')),
                       ([''out'', ''b.png''], File (Raw ''png:B''))]"

definition final_fs :: filesystem where
  "final_fs = [([''in''], Dir), ([''out''], Dir),
      ([''out'', ''a.png''], File (Raw ''png:A'')),
      ([''out'', ''b.png''], File (Raw ''png:B'')),
      ([''unsuccessful_conversions.csv''],
        File (Table [[], ''file_names''] [(0, [''in'', ''wmf_files'', ''corrupt.wmf''])]))]"

definition input_fs :: filesystem where
  "input_fs =
     [([''in''], Dir),
      ([''in'', ''a.emz''], File (Raw ''A'')),
      ([''in'', ''corrupt.emz''], File (Raw ''corrupt'')),
      ([''in'', ''b.emz''], File (Raw ''B''))]"

definition init_fs :: filesystem where
  "init_fs = input_fs @ [([''out''], Dir), ([''in'', ''wmf_files''], Dir)]"

definition copied_fs :: filesystem where
  "copied_fs = init_fs @
     [([''in'', ''wmf_files'', ''a.wmf''], File (Raw ''A'')),
      ([''in'', ''wmf_files'', ''corrupt.wmf''], File (Raw ''corrupt'')),
      ([''in'', ''wmf_files'', ''b.wmf''], File (Raw ''B''))]"

definition data_fs :: filesystem where
  "data_fs = [([''/'', ''data''], Dir), ([''/'', ''data'', ''in''], Dir)]"

definition leftover_fs :: filesystem where
  "leftover_fs =
     [([''in''], Dir),
      ([''in'', ''a.emz''], File (Raw ''A'')),
      ([''in'', ''wmf_files''], Dir),
      ([''in'', ''wmf_files'', ''old.wmf''], File (Raw ''OLD''))]"

definition leftover_init_fs :: filesystem where
  "leftover_init_fs = leftover_fs @ [([''out''], Dir)]"

definition leftover_copied_fs :: filesystem where
  "leftover_copied_fs =
     leftover_init_fs @ [([''in'', ''wmf_files'', ''a.wmf''], File (Raw ''A''))]"

definition leftover_final_fs :: filesystem where
  "leftover_final_fs =
     [([''in''], Dir), ([''in'', ''a.emz''], File (Raw ''A'')), ([''out''], Dir),
      ([''out'', ''old.png''], File (Raw ''png:OLD'')),
      ([''out'', ''a.png''], File (Raw ''png:A''))]"





definition pair_fs :: filesystem where
  "pair_fs =
     [([''in''], Dir),
      ([''in'', ''a.emz''], File (Raw ''A'')),
      ([''in'', ''b.emz''], File (Raw ''B''))]"

definition pair_init_fs :: filesystem where
  "pair_init_fs = pair_fs @ [([''out''], Dir), ([''in'', ''wmf_files''], Dir)]"

definition blocked_fs :: filesystem where
  "blocked_fs =
     [([''in''], Dir), ([''out''], Dir), ([''unsuccessful_conversions.csv''], Dir),
      ([''in'', ''wmf_files''], Dir),
      ([''in'', ''wmf_files'', ''a.wmf''], File (Raw ''A'')),
      ([''in'', ''wmf_files'', ''corrupt.wmf''], File (Raw ''corrupt'')),
      ([''in'', ''wmf_files'', ''b.wmf''], File (Raw ''B''))]"





section \<open>Construction\<close>

text \<open>
  Claim C5. When the input directory path does not exist, constructing the job raises
  the path-not-found error and the file system is left exactly as it was: neither the
  output directory nor the staging directory is created.
\<close>

theorem init_missing_input:
  assumes "\<not> path_exists fs (Path fl folder_input)"
  shows "EmzConverter_init fl folder_input folder_output out_type fs
           = (fs, Inl (PathNotFound folder_input))"
  using assms by (simp add: EmzConverter_init_def check_paths_def)

theorem init_missing_input_witness:
  "\<not> path_exists [([''/'', ''data''], Dir)] (Path Posix ''/data/in'')
   \<and> EmzConverter_init Posix ''/data/in'' None ''png'' [([''/'', ''data''], Dir)]
       = ([([''/'', ''data''], Dir)], Inl (PathNotFound ''/data/in''))"
proof -
  have h: "\<not> path_exists [([''/'', ''data''], Dir)] (Path Posix ''/data/in'')"
    by (simp add: path_exists_def Path_def)
  show ?thesis using h init_missing_input [OF h] by simp
qed

section \<open>Stage 2: the decode pass\<close>

lemma write_file_map_of:
  "write_file fs t c = Inr fs' \<Longrightarrow> map_of fs' = (map_of fs)(t \<mapsto> File c)"
  by (auto simp: write_file_def update_conv' split: if_splits)

lemma write_file_target:
  "write_file fs t c = Inr fs' \<Longrightarrow> \<not> is_dir fs t \<and> is_dir fs (butlast t)"
  by (auto simp: write_file_def split: if_splits)

lemma write_file_keeps_dir:
  assumes "write_file fs t c = Inr fs'" and "map_of fs p = Some Dir"
  shows "map_of fs' p = Some Dir"
proof -
  have "p \<noteq> t" using assms write_file_target [OF assms(1)] by (auto simp: is_dir_def)
  then show ?thesis using assms by (simp add: write_file_map_of)
qed

lemma write_file_is_dir_iff:
  assumes "write_file fs t c = Inr fs'"
  shows "is_dir fs' p = is_dir fs p"
  using write_file_target [OF assms]
  by (auto simp: is_dir_def write_file_map_of [OF assms])



lemma try_convert_SomeD:
  assumes "try_convert pl fl j fs f = Some fs'"
  shows "\<exists>c img t b. map_of fs f = Some (File c) \<and> Image_open pl c = Some img
           \<and> output_path fl j f = Some t \<and> Image_save pl img t = Some b
           \<and> write_file fs t b = Inr fs'"
  using assms
  by (auto simp: try_convert_def split: option.splits node.splits sum.splits)




lemma decode_loop_is_dir:
  "is_dir (fst (decode_loop pl fl j fs es xs)) p = is_dir fs p"
proof (induction xs arbitrary: fs es)
  case Nil
  then show ?case by simp
next
  case (Cons x xs)
  show ?case
  proof (cases "try_convert pl fl j fs x")
    case None
    then show ?thesis using Cons by simp
  next
    case (Some fs')
    then have "is_dir fs' p = is_dir fs p"
      using try_convert_SomeD [OF Some] write_file_is_dir_iff by blast
    then show ?thesis using Some Cons.IH by simp
  qed
qed

lemma decode_loop_keeps_dir:
  "map_of fs p = Some Dir \<Longrightarrow> map_of (fst (decode_loop pl fl j fs es xs)) p = Some Dir"
proof (induction xs arbitrary: fs es)
  case Nil
  then show ?case by simp
next
  case (Cons x xs)
  show ?case
  proof (cases "try_convert pl fl j fs x")
    case None
    then show ?thesis using Cons by simp
  next
    case (Some fs')
    then have "map_of fs' p = Some Dir"
      using try_convert_SomeD [OF Some] write_file_keeps_dir Cons.prems by blast
    then show ?thesis using Some Cons.IH by simp
  qed
qed


lemmas demo_simps = demo_pil_def demo_job_def staged_fs_def try_convert_def output_path_def
  with_suffix_def stem_def suffix_of_def write_file_def is_dir_def is_file_def backslash_def


lemma map_of_filter_key:
  "map_of (filter (\<lambda>(k, v). P k) fs) q = (if P q then map_of fs q else None)"
  by (induction fs) auto

lemma rmtree_dir:
  "map_of fs p = Some Dir \<Longrightarrow>
     rmtree fs p = Inr (filter (\<lambda>(q, n). take (length p) q \<noteq> p) fs)"
  by (simp add: rmtree_def)

lemma rmtree_map_of:
  "rmtree fs p = Inr fs' \<Longrightarrow>
     map_of fs' q = (if take (length p) q \<noteq> p then map_of fs q else None)"
  by (auto simp: rmtree_def map_of_filter_key split: option.splits node.splits)

lemma csv_file_eq: "csv_file fl = [''unsuccessful_conversions.csv'']"
  by (cases fl) (simp_all add: csv_file_def Path_def backslash_def)

lemma staging_entry:
  assumes "wmf_folder j = folder_input_path j @ [''wmf_files'']"
      and "is_dir fs (wmf_folder j)"
  shows "map_of fs (wmf_folder j) = Some Dir"
  using assms by (auto simp: is_dir_def)

text \<open>
  Claim C2, amended. Let stage 2 start with the staging directory in place, and let
  \<open>errors\<close> be the failure sequence its loop ends with. Stage 2 raises if and only if
  \<open>errors\<close> is not empty. When \<open>errors\<close> is not empty and no directory sits at the report
  path, the staging directory is removed, then the table of rows (index, file) over
  exactly \<open>errors\<close> is written to \<^verbatim>\<open>unsuccessful_conversions.csv\<close> in the working
  directory, and the error raised names that path. When \<open>errors\<close> is not empty and a
  directory sits at the report path, the staging directory is removed, no report is
  written and the error of the write is raised. When \<open>errors\<close> is empty the result is
  success and the file system is the one the removal of the staging directory leaves:
  no report is written.
\<close>

theorem stage2_raises_iff_failures:
  assumes wf: "wmf_folder j = folder_input_path j @ [''wmf_files'']"
      and staging: "is_dir fs (wmf_folder j)"
      and loop: "decode_loop pl fl j fs [] (glob fs (wmf_folder j) ''wmf'') = (fs1, errors)"
      and res: "convert_wmf_to_specified_output_type pl fl j fs = (fs', res)"
  shows "((\<exists>e. res = Inl e) \<longleftrightarrow> errors \<noteq> [])
       \<and> (errors \<noteq> [] \<and> \<not> is_dir fs (csv_file fl) \<longrightarrow>
            res = Inl (BatchIncomplete [''unsuccessful_conversions.csv''])
            \<and> map_of fs' [''unsuccessful_conversions.csv'']
                = Some (File (Table [[], ''file_names''] (zip [0..<length errors] errors)))
            \<and> (\<exists>fs2. rmtree fs1 (wmf_folder j) = Inr fs2
                 \<and> write_file fs2 [''unsuccessful_conversions.csv''] (report_table errors)
                     = Inr fs'))
       \<and> (errors \<noteq> [] \<and> is_dir fs (csv_file fl) \<longrightarrow>
            res = Inl IsADirectoryError \<and> rmtree fs1 (wmf_folder j) = Inr fs')
       \<and> (errors = [] \<longrightarrow> res = Inr () \<and> rmtree fs1 (wmf_folder j) = Inr fs')"
proof -
  have ex: "path_exists fs (wmf_folder j)"
    using staging by (auto simp: is_dir_def path_exists_def)
  have ff: "find_files fs (wmf_folder j) ''wmf'' = Inr (glob fs (wmf_folder j) ''wmf'')"
    using ex by (simp add: find_files_def)
  have "map_of fs1 (wmf_folder j) = Some Dir"
    using decode_loop_keeps_dir [OF staging_entry [OF wf staging], of pl fl j "[]"
        "glob fs (wmf_folder j) ''wmf''"] loop by simp
  then obtain fs2 where rm: "rmtree fs1 (wmf_folder j) = Inr fs2"
    by (simp add: rmtree_dir)
  have d1: "is_dir fs1 (csv_file fl) = is_dir fs (csv_file fl)"
    using decode_loop_is_dir [of pl fl j fs "[]" "glob fs (wmf_folder j) ''wmf''" "csv_file fl"]
      loop by simp
  have nu: "take (length (wmf_folder j)) [''unsuccessful_conversions.csv''] \<noteq> wmf_folder j"
    unfolding wf by (cases "folder_input_path j") auto
  have d2: "is_dir fs2 [''unsuccessful_conversions.csv''] = is_dir fs (csv_file fl)"
    using d1 nu by (simp add: is_dir_def csv_file_eq rmtree_map_of [OF rm])
  have wr: "write_file fs2 [''unsuccessful_conversions.csv''] c
              = (if is_dir fs (csv_file fl) then Inl IsADirectoryError
                 else Inr (AList.update [''unsuccessful_conversions.csv''] (File c) fs2))" for c
    using d2 by (simp add: write_file_def is_dir_def)
  show ?thesis
  proof (cases "errors = []")
    case True
    then show ?thesis
      using res by (auto simp: convert_wmf_to_specified_output_type_def ff loop rm)
  next
    case False
    show ?thesis
    proof (cases "is_dir fs (csv_file fl)")
      case True
      then show ?thesis
        using res False
        by (auto simp: convert_wmf_to_specified_output_type_def ff loop rm csv_file_eq wr)
    next
      case nd: False
      then show ?thesis
        using res False
        by (auto simp: convert_wmf_to_specified_output_type_def ff loop rm csv_file_eq wr
            update_conv' report_table_def)
    qed
  qed
qed

lemma demo_glob:
  "glob staged_fs (wmf_folder demo_job) ''wmf'' =
     [[''in'', ''wmf_files'', ''a.wmf''], [''in'', ''wmf_files'', ''corrupt.wmf''],
      [''in'', ''wmf_files'', ''b.wmf'']]"
  by (simp add: glob_def ends_with_def demo_simps)

lemma demo_loop:
  "decode_loop demo_pil Posix demo_job staged_fs [] (glob staged_fs (wmf_folder demo_job) ''wmf'')
     = (staged_fs_done, [[''in'', ''wmf_files'', ''corrupt.wmf'']])"
  unfolding demo_glob by (simp add: demo_simps staged_fs_done_def)

lemma demo_stage2:
  "convert_wmf_to_specified_output_type demo_pil Posix demo_job staged_fs
     = (final_fs, Inl (BatchIncomplete [''unsuccessful_conversions.csv'']))"
proof -
  have ex: "path_exists staged_fs (wmf_folder demo_job)"
    by (simp add: path_exists_def demo_simps)
  have rm: "rmtree staged_fs_done (wmf_folder demo_job)
              = Inr [([''in''], Dir), ([''out''], Dir),
                     ([''out'', ''a.png''], File (Raw ''png:A'')),
                     ([''out'', ''b.png''], File (Raw ''png:B''))]"
    by (simp add: rmtree_def staged_fs_done_def staged_fs_def demo_job_def)
  show ?thesis
    by (simp add: convert_wmf_to_specified_output_type_def find_files_def ex demo_loop rm
        report_table_def csv_file_eq write_file_def is_dir_def final_fs_def)
qed

theorem stage2_raises_iff_failures_witness:
  "wmf_folder demo_job = folder_input_path demo_job @ [''wmf_files'']
   \<and> is_dir staged_fs (wmf_folder demo_job)
   \<and> \<not> is_dir staged_fs (csv_file Posix)
   \<and> snd (decode_loop demo_pil Posix demo_job staged_fs []
            (glob staged_fs (wmf_folder demo_job) ''wmf''))
       = [[''in'', ''wmf_files'', ''corrupt.wmf'']]
   \<and> snd (convert_wmf_to_specified_output_type demo_pil Posix demo_job staged_fs)
       = Inl (BatchIncomplete [''unsuccessful_conversions.csv''])
   \<and> map_of (fst (convert_wmf_to_specified_output_type demo_pil Posix demo_job staged_fs))
         [''unsuccessful_conversions.csv'']
       = Some (File (Table [[], ''file_names'']
                     [(0, [''in'', ''wmf_files'', ''corrupt.wmf''])]))"
proof -
  have wf: "wmf_folder demo_job = folder_input_path demo_job @ [''wmf_files'']"
    by (simp add: demo_job_def)
  have staging: "is_dir staged_fs (wmf_folder demo_job)"
    by (simp add: demo_simps)
  have csv: "\<not> is_dir staged_fs (csv_file Posix)"
    by (simp add: demo_simps csv_file_eq)
  have errs: "snd (decode_loop demo_pil Posix demo_job staged_fs []
            (glob staged_fs (wmf_folder demo_job) ''wmf''))
       = [[''in'', ''wmf_files'', ''corrupt.wmf'']]"
    by (simp add: demo_loop)
  from stage2_raises_iff_failures [OF wf staging demo_loop demo_stage2] csv
  have "snd (convert_wmf_to_specified_output_type demo_pil Posix demo_job staged_fs)
       = Inl (BatchIncomplete [''unsuccessful_conversions.csv''])
     \<and> map_of (fst (convert_wmf_to_specified_output_type demo_pil Posix demo_job staged_fs))
         [''unsuccessful_conversions.csv'']
       = Some (File (Table [[], ''file_names'']
                     [(0, [''in'', ''wmf_files'', ''corrupt.wmf''])]))"
    by (simp add: demo_stage2)
  then show ?thesis using wf staging csv errs by blast
qed

text \<open>
  Claim C2 as stated fails when a directory sits at the report path: the failure
  sequence is not empty, yet no report is written there and the error raised is the
  one of the write, not the batch error naming the report.
\<close>

lemma blocked_glob:
  "glob blocked_fs (wmf_folder demo_job) ''wmf'' =
     [[''in'', ''wmf_files'', ''a.wmf''], [''in'', ''wmf_files'', ''corrupt.wmf''],
      [''in'', ''wmf_files'', ''b.wmf'']]"
  by (simp add: glob_def ends_with_def blocked_fs_def demo_simps)

lemma blocked_loop:
  "decode_loop demo_pil Posix demo_job blocked_fs []
     (glob blocked_fs (wmf_folder demo_job) ''wmf'')
     = (blocked_fs @ [([''out'', ''a.png''], File (Raw ''png:A'')),
                      ([''out'', ''b.png''], File (Raw ''png:B''))],
        [[''in'', ''wmf_files'', ''corrupt.wmf'']])"
  unfolding blocked_glob by (simp add: blocked_fs_def demo_simps)

lemma blocked_stage2:
  "convert_wmf_to_specified_output_type demo_pil Posix demo_job blocked_fs
     = ([([''in''], Dir), ([''out''], Dir), ([''unsuccessful_conversions.csv''], Dir),
         ([''out'', ''a.png''], File (Raw ''png:A'')),
         ([''out'', ''b.png''], File (Raw ''png:B''))],
        Inl IsADirectoryError)"
proof -
  have ex: "path_exists blocked_fs (wmf_folder demo_job)"
    by (simp add: path_exists_def blocked_fs_def demo_simps)
  have rm: "rmtree (blocked_fs @ [([''out'', ''a.png''], File (Raw ''png:A'')),
                      ([''out'', ''b.png''], File (Raw ''png:B''))]) (wmf_folder demo_job)
              = Inr [([''in''], Dir), ([''out''], Dir),
                     ([''unsuccessful_conversions.csv''], Dir),
                     ([''out'', ''a.png''], File (Raw ''png:A'')),
                     ([''out'', ''b.png''], File (Raw ''png:B''))]"
    by (simp add: rmtree_def blocked_fs_def staged_fs_def demo_job_def)
  show ?thesis
    by (simp add: convert_wmf_to_specified_output_type_def find_files_def ex blocked_loop rm
        report_table_def csv_file_eq write_file_def is_dir_def)
qed

theorem stage2_report_blocked_counterexample:
  "snd (decode_loop demo_pil Posix demo_job blocked_fs []
          (glob blocked_fs (wmf_folder demo_job) ''wmf''))
     = [[''in'', ''wmf_files'', ''corrupt.wmf'']]
   \<and> snd (convert_wmf_to_specified_output_type demo_pil Posix demo_job blocked_fs)
       = Inl IsADirectoryError
   \<and> map_of (fst (convert_wmf_to_specified_output_type demo_pil Posix demo_job blocked_fs))
         [''unsuccessful_conversions.csv''] = Some Dir"
  by (simp add: blocked_loop blocked_stage2)

section \<open>Whole runs\<close>

lemma take_butlast_prefix:
  assumes "take (length q) (butlast p) = q"
  shows "take (length q) p = q"
proof (cases "p = []")
  case True
  then show ?thesis using assms by simp
next
  case False
  have "length (take (length q) (butlast p)) = length q" using assms by simp
  then have a: "length q \<le> length p - 1" by simp
  have b: "length p \<noteq> 0" using False by simp
  from a b have "length q < length p" by arith
  then show ?thesis using assms by (simp add: take_butlast)
qed

lemma Path_mkdir_keeps:
  "Path_mkdir e fs p = Inr fs' \<Longrightarrow> map_of fs q = Some n \<Longrightarrow> map_of fs' q = Some n"
proof (induction e fs p arbitrary: fs' rule: Path_mkdir.induct)
  case (1 exist_ok fs p)
  show ?case
  proof (cases "path_exists fs p \<or> is_dir fs (butlast p) \<or> path_exists fs (butlast p)")
    case True
    then show ?thesis
      using "1.prems" by (subst (asm) Path_mkdir.simps) (auto split: if_splits)
  next
    case False
    then obtain fs1 where r: "Path_mkdir True fs (butlast p) = Inr fs1" "fs' = fs1 @ [(p, Dir)]"
      using "1.prems"(1) by (subst (asm) Path_mkdir.simps) (auto split: if_splits sum.splits)
    have "map_of fs1 q = Some n" using "1.IH" [OF _ _ _ r(1) "1.prems"(2)] False by simp
    then show ?thesis using r(2) by simp
  qed
qed

lemma Path_mkdir_new:
  "Path_mkdir e fs p = Inr fs' \<Longrightarrow> map_of fs' q = Some n \<Longrightarrow>
     map_of fs q = Some n \<or> (n = Dir \<and> take (length q) p = q \<and> q \<noteq> [] \<and> q \<noteq> [''/''])"
proof (induction e fs p arbitrary: fs' rule: Path_mkdir.induct)
  case (1 exist_ok fs p)
  have pne: "\<not> path_exists fs p \<Longrightarrow> p \<noteq> [] \<and> p \<noteq> [''/'']"
    by (auto simp: path_exists_def)
  show ?case
  proof (cases "path_exists fs p")
    case True
    then show ?thesis
      using "1.prems" by (subst (asm) Path_mkdir.simps) (auto split: if_splits)
  next
    case np: False
    show ?thesis
    proof (cases "is_dir fs (butlast p) \<or> path_exists fs (butlast p)")
      case True
      then have "fs' = fs @ [(p, Dir)]"
        using "1.prems"(1) np by (subst (asm) Path_mkdir.simps) (auto split: if_splits)
      then show ?thesis using "1.prems"(2) pne [OF np]
        by (auto simp: map_add_Some_iff split: if_splits)
    next
      case False
      then obtain fs1 where r: "Path_mkdir True fs (butlast p) = Inr fs1" "fs' = fs1 @ [(p, Dir)]"
        using "1.prems"(1) np
        by (subst (asm) Path_mkdir.simps) (auto split: if_splits sum.splits)
      have "map_of fs1 q = Some n \<or> (q = p \<and> n = Dir)"
        using "1.prems"(2) r(2) by (auto simp: map_add_Some_iff split: if_splits)
      then show ?thesis
      proof
        assume "map_of fs1 q = Some n"
        from "1.IH" [OF _ _ _ r(1) this] np False
        have "map_of fs q = Some n \<or>
                (n = Dir \<and> take (length q) (butlast p) = q \<and> q \<noteq> [] \<and> q \<noteq> [''/''])"
          by simp
        then show ?thesis
          using take_butlast_prefix by blast
      next
        assume "q = p \<and> n = Dir"
        then show ?thesis using pne [OF np] by simp
      qed
    qed
  qed
qed

lemma Path_mkdir_is_dir:
  assumes "Path_mkdir e fs p = Inr fs'"
  shows "is_dir fs' p"
proof (cases "path_exists fs p")
  case True
  then show ?thesis
    using assms by (subst (asm) Path_mkdir.simps) (auto split: if_splits)
next
  case False
  then have "map_of fs p = None" by (simp add: path_exists_def)
  have "\<exists>fs1. fs' = fs1 @ [(p, Dir)] \<and> (fs1 = fs \<or> Path_mkdir True fs (butlast p) = Inr fs1)"
    using assms False by (subst (asm) Path_mkdir.simps) (auto split: if_splits sum.splits)
  then obtain fs1 where r: "fs' = fs1 @ [(p, Dir)]"
    "fs1 = fs \<or> Path_mkdir True fs (butlast p) = Inr fs1" by blast
  have "map_of fs1 p = None"
  proof (rule ccontr)
    assume "map_of fs1 p \<noteq> None"
    then obtain n where n: "map_of fs1 p = Some n" by blast
    from r(2) show False
    proof
      assume "fs1 = fs" then show False using n \<open>map_of fs p = None\<close> by simp
    next
      assume "Path_mkdir True fs (butlast p) = Inr fs1"
      from Path_mkdir_new [OF this n] \<open>map_of fs p = None\<close>
      have "take (length p) (butlast p) = p" by simp
      then have "length (take (length p) (butlast p)) = length p" by simp
      then have a: "min (length p) (length p - 1) = length p" by simp
      have "p \<noteq> []" using False by (auto simp: path_exists_def)
      then have b: "length p \<noteq> 0" by simp
      from a b show False by arith
    qed
  qed
  then show ?thesis using r(1) by (simp add: is_dir_def map_add_def)
qed

lemma check_paths_keeps:
  assumes "check_paths fl i out fs = (fs1, r)" and "map_of fs q = Some n"
  shows "map_of fs1 q = Some n"
  using assms Path_mkdir_keeps
  by (auto simp: check_paths_def Let_def split: if_splits sum.splits)

lemma init_facts:
  assumes "EmzConverter_init fl i out t fs = (fs1, Inr j)"
  shows "wmf_folder j = folder_input_path j @ [''wmf_files'']"
    and "is_dir fs1 (wmf_folder j)"
    and "folder_input_path j = Path fl i"
    and "output_type j = t"
    and "path_exists fs (Path fl i)"
proof -
  obtain fs0 inp outp where cp: "check_paths fl i out fs = (fs0, Inr (inp, outp))"
    and mk: "Path_mkdir True fs0 (inp @ [''wmf_files'']) = Inr fs1"
    and j: "j = \<lparr>folder_input_path = inp, folder_output_path = outp,
                  wmf_folder = inp @ [''wmf_files''], output_type = t\<rparr>"
    using assms by (auto simp: EmzConverter_init_def split: prod.splits sum.splits)
  show "wmf_folder j = folder_input_path j @ [''wmf_files'']" using j by simp
  show "is_dir fs1 (wmf_folder j)" using Path_mkdir_is_dir [OF mk] j by simp
  show "output_type j = t" using j by simp
  have "inp = Path fl i \<and> path_exists fs (Path fl i)"
    using cp by (auto simp: check_paths_def Let_def split: if_splits sum.splits)
  then show "folder_input_path j = Path fl i" "path_exists fs (Path fl i)" using j by simp_all
qed

lemma copyfile_SomeD:
  "copyfile fs src dst = Inr fs' \<Longrightarrow>
     \<exists>c. map_of fs src = Some (File c) \<and> src \<noteq> dst \<and> write_file fs dst c = Inr fs'"
  by (auto simp: copyfile_def split: option.splits node.splits if_splits)

lemma copy_loop_keeps_dir:
  "copy_loop j fs xs = (fs', r) \<Longrightarrow> map_of fs p = Some Dir \<Longrightarrow> map_of fs' p = Some Dir"
proof (induction xs arbitrary: fs)
  case Nil
  then show ?case by simp
next
  case (Cons x xs)
  show ?case
  proof (cases "copyfile fs x (wmf_folder j @ [stem (last x) @ ''.wmf''])")
    case (Inl e)
    then show ?thesis using Cons.prems by simp
  next
    case (Inr fs1)
    then have "map_of fs1 p = Some Dir"
      using copyfile_SomeD [OF Inr] write_file_keeps_dir Cons.prems(2) by blast
    then show ?thesis using Cons.IH [of fs1] Cons.prems(1) Inr by simp
  qed
qed

lemma stage1_keeps_dir:
  "convert_emz_files_to_wmf j fs = (fs', r) \<Longrightarrow> map_of fs p = Some Dir
     \<Longrightarrow> map_of fs' p = Some Dir"
  using copy_loop_keeps_dir
  by (auto simp: convert_emz_files_to_wmf_def split: sum.splits)

lemma csv_not_under_staging:
  "take (length (inp @ [''wmf_files''])) [''unsuccessful_conversions.csv'']
     \<noteq> inp @ [''wmf_files'']"
  by (cases inp) auto

lemma stage2_removes_staging:
  assumes wf: "wmf_folder j = folder_input_path j @ [''wmf_files'']"
      and staging: "is_dir fs (wmf_folder j)"
      and under: "take (length (wmf_folder j)) q = wmf_folder j"
  shows "map_of (fst (convert_wmf_to_specified_output_type pl fl j fs)) q = None"
proof -
  obtain fs1 errors where
    loop: "decode_loop pl fl j fs [] (glob fs (wmf_folder j) ''wmf'') = (fs1, errors)"
    by (cases "decode_loop pl fl j fs [] (glob fs (wmf_folder j) ''wmf'')")
  have ex: "path_exists fs (wmf_folder j)"
    using staging by (auto simp: is_dir_def path_exists_def)
  have ff: "find_files fs (wmf_folder j) ''wmf'' = Inr (glob fs (wmf_folder j) ''wmf'')"
    using ex by (simp add: find_files_def)
  have "map_of fs1 (wmf_folder j) = Some Dir"
    using decode_loop_keeps_dir [OF staging_entry [OF wf staging], of pl fl j "[]"
        "glob fs (wmf_folder j) ''wmf''"] loop by simp
  then obtain fs2 where rm: "rmtree fs1 (wmf_folder j) = Inr fs2"
    by (simp add: rmtree_dir)
  have gone: "map_of fs2 q = None"
    using under by (simp add: rmtree_map_of [OF rm])
  have "q \<noteq> [''unsuccessful_conversions.csv'']"
    using under csv_not_under_staging [of "folder_input_path j"] wf by auto
  then have "write_file fs2 (csv_file fl) c = Inr fs3 \<Longrightarrow> map_of fs3 q = None" for c fs3
    using gone by (simp add: write_file_map_of csv_file_eq)
  then show ?thesis
    using gone
    by (auto simp: convert_wmf_to_specified_output_type_def ff loop rm split: sum.splits)
qed

text \<open>
  Claim C3. Take a run whose construction succeeded and whose stage 1 completed, so
  that stage 2 is entered: its loop then runs to its end (see C1) and the staging
  directory is removed. After the run the staging directory does not exist and nothing
  is left below it, whatever the decoder did with each file and whether or not the
  report could be written.
\<close>

theorem run_removes_staging:
  assumes init: "EmzConverter_init fl folder_input folder_output out_type fs0 = (fs1, Inr j)"
      and stage1: "convert_emz_files_to_wmf j fs1 = (fs2, Inr u)"
  shows "\<not> path_exists (fst (run pl fl folder_input folder_output out_type fs0)) (wmf_folder j)
       \<and> (\<forall>q. take (length (wmf_folder j)) q = wmf_folder j \<longrightarrow>
              map_of (fst (run pl fl folder_input folder_output out_type fs0)) q = None)"
proof -
  note wf = init_facts(1) [OF init]
  have "map_of fs1 (wmf_folder j) = Some Dir"
    using staging_entry [OF wf init_facts(2) [OF init]] .
  then have "map_of fs2 (wmf_folder j) = Some Dir"
    using stage1_keeps_dir [OF stage1] by simp
  then have d2: "is_dir fs2 (wmf_folder j)" by (simp add: is_dir_def)
  have run: "run pl fl folder_input folder_output out_type fs0
               = convert_wmf_to_specified_output_type pl fl j fs2"
    by (simp add: run_def init convert_def stage1)
  have all: "\<forall>q. take (length (wmf_folder j)) q = wmf_folder j \<longrightarrow>
              map_of (fst (run pl fl folder_input folder_output out_type fs0)) q = None"
    unfolding run using stage2_removes_staging [OF wf d2] by blast
  then have "map_of (fst (run pl fl folder_input folder_output out_type fs0)) (wmf_folder j) = None"
    by simp
  moreover have "wmf_folder j \<noteq> [] \<and> wmf_folder j \<noteq> [''/'']"
    using wf by auto
  ultimately show ?thesis using all by (simp add: path_exists_def)
qed

lemma demo_init:
  "EmzConverter_init Posix ''in'' (Some ''out'') ''png'' input_fs = (init_fs, Inr demo_job)"
  by (simp add: EmzConverter_init_def check_paths_def Path_def path_exists_def is_dir_def
      Path_mkdir.simps input_fs_def init_fs_def demo_job_def Let_def)

lemma demo_stage1:
  "convert_emz_files_to_wmf demo_job init_fs = (copied_fs, Inr ())"
  by (simp add: convert_emz_files_to_wmf_def find_files_def path_exists_def glob_def
      ends_with_def copyfile_def input_fs_def init_fs_def copied_fs_def demo_simps)

theorem run_removes_staging_witness:
  "EmzConverter_init Posix ''in'' (Some ''out'') ''png'' input_fs = (init_fs, Inr demo_job)
   \<and> convert_emz_files_to_wmf demo_job init_fs = (copied_fs, Inr ())
   \<and> \<not> path_exists (fst (run demo_pil Posix ''in'' (Some ''out'') ''png'' input_fs))
         [''in'', ''wmf_files'']"
  using run_removes_staging [OF demo_init demo_stage1, of demo_pil] demo_init demo_stage1
  by (simp add: demo_job_def)

section \<open>The default output directory\<close>

lemma check_paths_default_output_windows:
  "check_paths Windows ''/data/in'' None data_fs
     = (data_fs @ [([''/'', ''data'', ''in'', ''output_png_images''], Dir)],
        Inr ([''/'', ''data'', ''in''], [''/'', ''data'', ''in'', ''output_png_images'']))"
  by (simp add: check_paths_def Path_def path_exists_def is_dir_def Path_mkdir.simps
      data_fs_def backslash_def Let_def)

text \<open>
  Claim C4. With no output directory supplied, \<^verbatim>\<open>check_paths\<close> builds the output path by
  appending a backslash and \<^verbatim>\<open>output_png_images\<close> to the input string. On a POSIX
  system the backslash is not a separator: for the existing input directory
  \<^verbatim>\<open>/data/in\<close> the directory created and returned is the child of \<^verbatim>\<open>/data\<close> whose
  name is \<^verbatim>\<open>in\<close>, a backslash and \<^verbatim>\<open>output_png_images\<close>, and the subdirectory
  \<^verbatim>\<open>output_png_images\<close> of the input directory does not exist afterwards. (With Windows
  separators the resolved directory is that subdirectory for every non-empty input
  string, as \<open>check_paths_default_output_windows_general\<close> below shows; the path
  model keeps a drive such as \<^verbatim>\<open>C:\<close> as an ordinary component, so a bare drive
  string is outside what that lemma describes.)
\<close>

theorem check_paths_default_output_posix:
  "check_paths Posix ''/data/in'' None data_fs
     = (data_fs @ [([''/'', ''data'', ''in'' @ backslash # ''output_png_images''], Dir)],
        Inr ([''/'', ''data'', ''in''],
             [''/'', ''data'', ''in'' @ backslash # ''output_png_images'']))
   \<and> \<not> path_exists (fst (check_paths Posix ''/data/in'' None data_fs))
         (Path Posix ''/data/in'' @ [''output_png_images''])"
  by (simp add: check_paths_def Path_def path_exists_def is_dir_def Path_mkdir.simps
      data_fs_def backslash_def Let_def)

lemma split_on_not_Nil: "split_on P xs \<noteq> []"
  by (induction xs) (auto split: list.splits)

lemma split_on_append_sep:
  "P c \<Longrightarrow> split_on P (xs @ c # ys) = split_on P xs @ split_on P ys"
proof (induction xs)
  case Nil
  then show ?case by simp
next
  case (Cons x xs)
  then show ?case
    using split_on_not_Nil [of P xs] by (auto split: list.splits)
qed

lemma split_on_no_sep: "\<forall>c \<in> set xs. \<not> P c \<Longrightarrow> split_on P xs = [xs]"
  by (induction xs) auto

lemma Path_windows_backslash_name:
  assumes "inp \<noteq> []"
  shows "Path Windows (inp @ backslash # ''output_png_images'')
           = Path Windows inp @ [''output_png_images'']"
proof -
  have "split_on (is_sep Windows) ''output_png_images'' = [''output_png_images'']"
    by (rule split_on_no_sep) (simp add: backslash_def)
  then have "split_on (is_sep Windows) (inp @ backslash # ''output_png_images'')
          = split_on (is_sep Windows) inp @ [''output_png_images'']"
    by (simp add: split_on_append_sep)
  then show ?thesis
    using assms by (simp add: Path_def Let_def)
qed

lemma check_paths_default_output_windows_general:
  assumes "folder_input \<noteq> []" and "is_dir fs (Path Windows folder_input)"
  shows "\<exists>fs'. check_paths Windows folder_input None fs
            = (fs', Inr (Path Windows folder_input,
                         Path Windows folder_input @ [''output_png_images'']))
          \<and> path_exists fs' (Path Windows folder_input @ [''output_png_images''])
          \<and> (path_exists fs (Path Windows folder_input @ [''output_png_images''])
                \<longrightarrow> fs' = fs)
          \<and> (\<not> path_exists fs (Path Windows folder_input @ [''output_png_images''])
                \<longrightarrow> fs' = fs @ [(Path Windows folder_input @ [''output_png_images''], Dir)])"
proof -
  let ?out = "Path Windows folder_input @ [''output_png_images'']"
  have ex: "path_exists fs (Path Windows folder_input)"
    using assms(2) by (auto simp: is_dir_def path_exists_def)
  have mk: "\<not> path_exists fs ?out \<Longrightarrow> Path_mkdir False fs ?out = Inr (fs @ [(?out, Dir)])"
    using assms(2) by (subst Path_mkdir.simps) simp
  have new: "\<not> path_exists fs ?out \<Longrightarrow> path_exists (fs @ [(?out, Dir)]) ?out"
    by (auto simp: path_exists_def)
  have cp: "check_paths Windows folder_input None fs =
      (if \<not> path_exists fs ?out
       then (case Path_mkdir False fs ?out of
               Inl e \<Rightarrow> (fs, Inl e)
             | Inr fs' \<Rightarrow> (fs', Inr (Path Windows folder_input, ?out)))
       else (fs, Inr (Path Windows folder_input, ?out)))"
    using ex
    by (simp add: check_paths_def Let_def Path_windows_backslash_name [OF assms(1)]
        cong: sum.case_cong)
  show ?thesis
  proof (cases "path_exists fs ?out")
    case True
    then show ?thesis by (simp add: cp)
  next
    case False
    then show ?thesis using mk new by (simp add: cp)
  qed
qed

section \<open>Stage 1: the relabel pass\<close>

lemma copyfile_map_of:
  assumes "copyfile fs src dst = Inr fs'"
  shows "map_of fs' = (map_of fs)(dst := map_of fs src) \<and> (\<exists>c. map_of fs src = Some (File c))"
proof -
  obtain c where "map_of fs src = Some (File c)" "write_file fs dst c = Inr fs'"
    using copyfile_SomeD [OF assms] by blast
  then show ?thesis by (simp add: write_file_map_of)
qed

lemma copy_loop_untouched:
  "copy_loop j fs xs = (fs', r) \<Longrightarrow> \<forall>g \<in> set xs. staged_path j g \<noteq> q
     \<Longrightarrow> map_of fs' q = map_of fs q"
proof (induction xs arbitrary: fs)
  case Nil
  then show ?case by simp
next
  case (Cons x xs)
  show ?case
  proof (cases "copyfile fs x (staged_path j x)")
    case (Inl e)
    then show ?thesis using Cons.prems by (simp add: staged_path_def)
  next
    case (Inr fs1)
    have "map_of fs1 q = map_of fs q"
      using copyfile_map_of [OF Inr] Cons.prems(2) by auto
    moreover have "copy_loop j fs1 xs = (fs', r)"
      using Cons.prems(1) Inr by (simp add: staged_path_def)
    ultimately show ?thesis using Cons.IH [of fs1] Cons.prems(2) by simp
  qed
qed

lemma copy_loop_frame:
  assumes "copy_loop j fs xs = (fs', r)" and "butlast q \<noteq> wmf_folder j"
  shows "map_of fs' q = map_of fs q"
proof -
  have "\<forall>g \<in> set xs. staged_path j g \<noteq> q"
    using assms(2) by (auto simp: staged_path_def)
  then show ?thesis using copy_loop_untouched [OF assms(1)] by simp
qed

lemma copy_loop_content:
  "copy_loop j fs xs = (fs', Inr u) \<Longrightarrow> \<forall>g \<in> set xs. butlast g \<noteq> wmf_folder j
     \<Longrightarrow> f \<in> set xs
     \<Longrightarrow> \<exists>g \<in> set xs. stem (last g) = stem (last f)
           \<and> map_of fs' (staged_path j f) = map_of fs g
           \<and> (\<exists>c. map_of fs g = Some (File c))"
proof (induction xs arbitrary: fs f)
  case Nil
  then show ?case by simp
next
  case (Cons x xs)
  obtain fs1 where c1: "copyfile fs x (staged_path j x) = Inr fs1"
    and rest: "copy_loop j fs1 xs = (fs', Inr u)"
    using Cons.prems(1) by (auto simp: staged_path_def split: sum.splits)
  note m1 = copyfile_map_of [OF c1]
  have src: "g \<in> set (x # xs) \<Longrightarrow> map_of fs1 g = map_of fs g" for g
  proof -
    assume "g \<in> set (x # xs)"
    then have "butlast g \<noteq> wmf_folder j" using Cons.prems(2) by blast
    then have "g \<noteq> staged_path j x" by (auto simp: staged_path_def)
    then show ?thesis using m1 by simp
  qed
  have via_rest: "h \<in> set xs \<Longrightarrow> stem (last h) = stem (last f) \<Longrightarrow> ?case" for h
  proof -
    assume h: "h \<in> set xs" "stem (last h) = stem (last f)"
    from Cons.IH [OF rest _ h(1)] Cons.prems(2)
    obtain g where g: "g \<in> set xs" "stem (last g) = stem (last h)"
      "map_of fs' (staged_path j h) = map_of fs1 g" "\<exists>c. map_of fs1 g = Some (File c)"
      by auto
    have "staged_path j h = staged_path j f" using h(2) by (simp add: staged_path_def)
    then show ?thesis using g h(2) src [of g] by auto
  qed
  show ?case
  proof (cases "\<exists>h \<in> set xs. stem (last h) = stem (last f)")
    case True
    then show ?thesis using via_rest by blast
  next
    case False
    then have fx: "f = x" using Cons.prems(3) by auto
    have "\<forall>g \<in> set xs. staged_path j g \<noteq> staged_path j x"
      using False fx by (auto simp: staged_path_def)
    then have "map_of fs' (staged_path j x) = map_of fs1 (staged_path j x)"
      using copy_loop_untouched [OF rest] by simp
    then have "map_of fs' (staged_path j f) = map_of fs x" using m1 fx by simp
    then show ?thesis using m1 fx by auto
  qed
qed

lemma copy_loop_sources:
  "copy_loop j fs xs = (fs', Inr u) \<Longrightarrow> \<forall>g \<in> set xs. butlast g \<noteq> wmf_folder j
     \<Longrightarrow> h \<in> set xs \<Longrightarrow> \<exists>c. map_of fs h = Some (File c)"
proof (induction xs arbitrary: fs)
  case Nil
  then show ?case by simp
next
  case (Cons x xs)
  obtain fs1 where c1: "copyfile fs x (staged_path j x) = Inr fs1"
    and rest: "copy_loop j fs1 xs = (fs', Inr u)"
    using Cons.prems(1) by (auto simp: staged_path_def split: sum.splits)
  note m1 = copyfile_map_of [OF c1]
  show ?case
  proof (cases "h = x")
    case True
    then show ?thesis using m1 by simp
  next
    case False
    then have h: "h \<in> set xs" using Cons.prems(3) by simp
    from Cons.IH [OF rest _ h] Cons.prems(2)
    obtain c where "map_of fs1 h = Some (File c)" by auto
    moreover have "h \<noteq> staged_path j x"
      using Cons.prems(2) h by (auto simp: staged_path_def)
    ultimately show ?thesis using m1 by auto
  qed
qed

lemma glob_parent: "f \<in> set (glob fs d suf) \<Longrightarrow> butlast f = d \<and> f \<noteq> []"
  by (auto simp: glob_def split: if_splits)

lemma glob_Nil_not_dir: "\<not> is_dir fs d \<Longrightarrow> glob fs d suf = []"
  by (simp add: glob_def)

text \<open>
  Claim C6. Stage 1, for a job whose staging directory is \<^verbatim>\<open>wmf_files\<close> under the input
  directory. With no \<^verbatim>\<open>.emz\<close> entry in the input directory it returns success and
  leaves the file system as it was. Whatever it returns, every path that is not a
  child of the staging directory keeps its node: no source file is changed or deleted.
  When it returns success, every \<^verbatim>\<open>.emz\<close> entry \<open>f\<close> is a regular file, still holds its
  bytes, and the staged file named by the base name of \<open>f\<close> followed by \<^verbatim>\<open>.wmf\<close> holds
  the unchanged bytes of a \<^verbatim>\<open>.emz\<close> file with that base name: those of \<open>f\<close> itself when
  no other \<^verbatim>\<open>.emz\<close> file has the same base name (the base name is pathlib's stem, so
  only names such as \<^verbatim>\<open>.emz\<close> and \<^verbatim>\<open>.emz.emz\<close> share one).
\<close>

theorem stage1_copies:
  assumes wf: "wmf_folder j = folder_input_path j @ [''wmf_files'']"
  shows "(path_exists fs (folder_input_path j) \<and> glob fs (folder_input_path j) ''emz'' = []
            \<longrightarrow> convert_emz_files_to_wmf j fs = (fs, Inr ()))
       \<and> (\<forall>q. butlast q \<noteq> wmf_folder j \<longrightarrow>
              map_of (fst (convert_emz_files_to_wmf j fs)) q = map_of fs q)
       \<and> (snd (convert_emz_files_to_wmf j fs) = Inr () \<longrightarrow>
            (\<forall>f \<in> set (glob fs (folder_input_path j) ''emz'').
               (\<exists>c. map_of fs f = Some (File c)
                   \<and> map_of (fst (convert_emz_files_to_wmf j fs)) f = Some (File c))
               \<and> (\<exists>g \<in> set (glob fs (folder_input_path j) ''emz'').
                     stem (last g) = stem (last f)
                     \<and> (\<exists>c. map_of fs g = Some (File c)
                         \<and> map_of (fst (convert_emz_files_to_wmf j fs))
                              (wmf_folder j @ [stem (last f) @ ''.wmf'']) = Some (File c)))
               \<and> ((\<forall>g \<in> set (glob fs (folder_input_path j) ''emz'').
                      stem (last g) = stem (last f) \<longrightarrow> g = f)
                    \<longrightarrow> map_of (fst (convert_emz_files_to_wmf j fs))
                          (wmf_folder j @ [stem (last f) @ ''.wmf'']) = map_of fs f)))"
proof (intro conjI impI allI ballI)
  assume "path_exists fs (folder_input_path j) \<and> glob fs (folder_input_path j) ''emz'' = []"
  then show "convert_emz_files_to_wmf j fs = (fs, Inr ())"
    by (simp add: convert_emz_files_to_wmf_def find_files_def)
next
  fix q assume q: "butlast q \<noteq> wmf_folder j"
  show "map_of (fst (convert_emz_files_to_wmf j fs)) q = map_of fs q"
  proof (cases "find_files fs (folder_input_path j) ''emz''")
    case (Inl e)
    then show ?thesis by (simp add: convert_emz_files_to_wmf_def)
  next
    case (Inr files)
    obtain fs' r where cl: "copy_loop j fs files = (fs', r)" by (cases "copy_loop j fs files")
    then show ?thesis
      using copy_loop_frame [OF cl q] Inr by (simp add: convert_emz_files_to_wmf_def)
  qed
next
  fix f
  assume ok: "snd (convert_emz_files_to_wmf j fs) = Inr ()"
    and f: "f \<in> set (glob fs (folder_input_path j) ''emz'')"
  let ?files = "glob fs (folder_input_path j) ''emz''"
  let ?fs' = "fst (convert_emz_files_to_wmf j fs)"
  have "is_dir fs (folder_input_path j)"
    using f by (cases "is_dir fs (folder_input_path j)") (simp_all add: glob_def)
  then have "path_exists fs (folder_input_path j)"
    by (auto simp: is_dir_def path_exists_def)
  then have s1: "convert_emz_files_to_wmf j fs = copy_loop j fs ?files"
    by (simp add: convert_emz_files_to_wmf_def find_files_def)
  then have cl: "copy_loop j fs ?files = (?fs', Inr ())"
    using ok by (metis prod.collapse)
  have par: "\<forall>g \<in> set ?files. butlast g \<noteq> wmf_folder j"
    using glob_parent wf by fastforce
  from copy_loop_content [OF cl par f]
  obtain g c where g: "g \<in> set ?files" "stem (last g) = stem (last f)"
    "map_of ?fs' (staged_path j f) = map_of fs g" "map_of fs g = Some (File c)"
    by blast
  show "\<exists>g \<in> set ?files. stem (last g) = stem (last f)
                     \<and> (\<exists>c. map_of fs g = Some (File c)
                         \<and> map_of ?fs' (wmf_folder j @ [stem (last f) @ ''.wmf'']) = Some (File c))"
    using g by (auto simp: staged_path_def)
  have same: "map_of ?fs' f = map_of fs f"
    using copy_loop_frame [OF cl] par f by blast
  show "\<exists>c. map_of fs f = Some (File c) \<and> map_of ?fs' f = Some (File c)"
    using copy_loop_sources [OF cl par f] same by auto
  show "map_of ?fs' (wmf_folder j @ [stem (last f) @ ''.wmf'']) = map_of fs f"
    if "\<forall>g \<in> set ?files. stem (last g) = stem (last f) \<longrightarrow> g = f"
    using g that by (auto simp: staged_path_def)
qed

lemma demo_emz_glob:
  "glob init_fs (folder_input_path demo_job) ''emz'' =
     [[''in'', ''a.emz''], [''in'', ''corrupt.emz''], [''in'', ''b.emz'']]"
  by (simp add: glob_def ends_with_def is_dir_def init_fs_def input_fs_def demo_job_def)

theorem stage1_copies_witness:
  "wmf_folder demo_job = folder_input_path demo_job @ [''wmf_files'']
   \<and> snd (convert_emz_files_to_wmf demo_job init_fs) = Inr ()
   \<and> [''in'', ''a.emz''] \<in> set (glob init_fs (folder_input_path demo_job) ''emz'')
   \<and> map_of (fst (convert_emz_files_to_wmf demo_job init_fs)) [''in'', ''wmf_files'', ''a.wmf'']
       = Some (File (Raw ''A''))
   \<and> map_of (fst (convert_emz_files_to_wmf demo_job init_fs)) [''in'', ''a.emz'']
       = Some (File (Raw ''A''))"
proof -
  let ?f = "[''in'', ''a.emz'']"
  have wf: "wmf_folder demo_job = folder_input_path demo_job @ [''wmf_files'']"
    by (simp add: demo_job_def)
  have ok: "snd (convert_emz_files_to_wmf demo_job init_fs) = Inr ()"
    by (simp add: demo_stage1)
  have f: "?f \<in> set (glob init_fs (folder_input_path demo_job) ''emz'')"
    by (simp add: demo_emz_glob)
  have uniq: "\<forall>g \<in> set (glob init_fs (folder_input_path demo_job) ''emz'').
                stem (last g) = stem (last ?f) \<longrightarrow> g = ?f"
    by (simp add: demo_emz_glob stem_def suffix_of_def)
  have src: "map_of init_fs ?f = Some (File (Raw ''A''))"
    by (simp add: init_fs_def input_fs_def)
  have nm: "wmf_folder demo_job @ [stem (last ?f) @ ''.wmf''] = [''in'', ''wmf_files'', ''a.wmf'']"
    by (simp add: demo_job_def stem_def suffix_of_def)
  have nq: "butlast ?f \<noteq> wmf_folder demo_job" by (simp add: demo_job_def)
  from stage1_copies [OF wf, of init_fs] ok f uniq
  have "map_of (fst (convert_emz_files_to_wmf demo_job init_fs))
          (wmf_folder demo_job @ [stem (last ?f) @ ''.wmf'']) = map_of init_fs ?f"
    by blast
  moreover from stage1_copies [OF wf, of init_fs] nq
  have "map_of (fst (convert_emz_files_to_wmf demo_job init_fs)) ?f = map_of init_fs ?f"
    by blast
  ultimately show ?thesis using wf ok f src nm by simp
qed

section \<open>Files left in the staging directory\<close>

lemma glob_iff:
  "f \<in> set (glob fs d suf) \<longleftrightarrow>
     is_dir fs d \<and> f \<noteq> [] \<and> butlast f = d \<and> ends_with (last f) (CHR ''.'' # suf)
     \<and> map_of fs f \<noteq> None"
  by (auto simp: glob_def map_of_eq_None_iff)



lemma init_keeps:
  assumes "EmzConverter_init fl i out t fs = (fs1, r)" and "map_of fs q = Some n"
  shows "map_of fs1 q = Some n"
proof -
  obtain fsa ra where cp: "check_paths fl i out fs = (fsa, ra)"
    by (cases "check_paths fl i out fs")
  have a: "map_of fsa q = Some n" using check_paths_keeps [OF cp assms(2)] .
  show ?thesis
    using assms(1) cp a Path_mkdir_keeps
    by (auto simp: EmzConverter_init_def split: sum.splits prod.splits)
qed


lemma leftover_init:
  "EmzConverter_init Posix ''in'' (Some ''out'') ''png'' leftover_fs
     = (leftover_init_fs, Inr demo_job)"
  by (simp add: EmzConverter_init_def check_paths_def Path_def path_exists_def is_dir_def
      Path_mkdir.simps leftover_fs_def leftover_init_fs_def demo_job_def Let_def)

lemma leftover_stage1:
  "convert_emz_files_to_wmf demo_job leftover_init_fs = (leftover_copied_fs, Inr ())"
  by (simp add: convert_emz_files_to_wmf_def find_files_def path_exists_def glob_def
      ends_with_def copyfile_def leftover_fs_def leftover_init_fs_def leftover_copied_fs_def
      demo_simps)


section \<open>Characterising a run\<close>

lemma output_path_parent:
  "output_path fl j f = Some t \<Longrightarrow> butlast t = folder_output_path j \<and> t \<noteq> []"
  by (auto simp: output_path_def split: option.splits)

lemma decoded_target:
  "decoded pl fl j fs f = Some (t, b) \<Longrightarrow> output_path fl j f = Some t"
  by (auto simp: decoded_def split: option.splits node.splits)

lemma try_convert_decoded:
  "try_convert pl fl j fs f =
     (case decoded pl fl j fs f of
        None \<Rightarrow> None
      | Some (t, b) \<Rightarrow> (case write_file fs t b of Inl e \<Rightarrow> None | Inr fs' \<Rightarrow> Some fs'))"
  by (auto simp: try_convert_def decoded_def split: option.splits node.splits)

lemma try_convert_writes:
  "try_convert pl fl j fs f =
     (if writes pl fl j fs f
      then Some (AList.update (fst (the (decoded pl fl j fs f)))
                   (File (snd (the (decoded pl fl j fs f)))) fs)
      else None)"
proof (cases "decoded pl fl j fs f")
  case None
  then show ?thesis by (simp add: try_convert_decoded writes_def)
next
  case (Some tb)
  obtain t b where tb: "tb = (t, b)" by (cases tb)
  have "butlast t = folder_output_path j"
    using decoded_target [of pl fl j fs f t b] Some tb output_path_parent by blast
  then show ?thesis
    using Some tb by (simp add: try_convert_decoded writes_def write_file_def)
qed

lemma decoded_cong:
  "map_of fs' f = map_of fs f \<Longrightarrow> decoded pl fl j fs' f = decoded pl fl j fs f"
  by (simp add: decoded_def)

lemma writes_cong:
  assumes "map_of fs' f = map_of fs f" and "\<And>q. is_dir fs' q = is_dir fs q"
  shows "writes pl fl j fs' f = writes pl fl j fs f"
  by (simp add: writes_def decoded_cong [OF assms(1)] assms(2) split: option.splits)

lemma writes_step:
  assumes w: "writes pl fl j fs x" and y: "butlast y \<noteq> folder_output_path j"
  defines "fs1 \<equiv> AList.update (fst (the (decoded pl fl j fs x)))
                   (File (snd (the (decoded pl fl j fs x)))) fs"
  shows "writes pl fl j fs1 y = writes pl fl j fs y"
    and "map_of fs1 y = map_of fs y"
proof -
  obtain t b where d: "decoded pl fl j fs x = Some (t, b)"
    and nd: "\<not> is_dir fs t"
    using w by (auto simp: writes_def split: option.splits)
  have par: "butlast t = folder_output_path j"
    using decoded_target [OF d] output_path_parent by blast
  have fs1: "map_of fs1 = (map_of fs)(t \<mapsto> File b)"
    using d by (simp add: fs1_def update_conv')
  have "y \<noteq> t" using par y by auto
  then show m: "map_of fs1 y = map_of fs y" using fs1 by simp
  have "is_dir fs1 q = is_dir fs q" for q
    using nd by (auto simp: is_dir_def fs1)
  with m show "writes pl fl j fs1 y = writes pl fl j fs y"
    by (rule writes_cong)
qed

lemma writes_step_all:
  assumes "writes pl fl j fs x" and "butlast y \<noteq> folder_output_path j"
  shows "writes pl fl j (AList.update (fst (the (decoded pl fl j fs x)))
                   (File (snd (the (decoded pl fl j fs x)))) fs) y = writes pl fl j fs y
       \<and> decoded pl fl j (AList.update (fst (the (decoded pl fl j fs x)))
                   (File (snd (the (decoded pl fl j fs x)))) fs) y = decoded pl fl j fs y"
  using writes_step [OF assms] decoded_cong [OF writes_step(2) [OF assms]] by simp

lemma decode_loop_errors:
  "\<forall>x \<in> set xs. butlast x \<noteq> folder_output_path j \<Longrightarrow>
     snd (decode_loop pl fl j fs es xs) = es @ filter (\<lambda>x. \<not> writes pl fl j fs x) xs"
proof (induction xs arbitrary: fs es)
  case Nil
  then show ?case by simp
next
  case (Cons x xs)
  show ?case
  proof (cases "writes pl fl j fs x")
    case False
    then show ?thesis using Cons by (simp add: try_convert_writes)
  next
    case True
    let ?fs1 = "AList.update (fst (the (decoded pl fl j fs x)))
                   (File (snd (the (decoded pl fl j fs x)))) fs"
    have "filter (\<lambda>y. \<not> writes pl fl j ?fs1 y) xs = filter (\<lambda>y. \<not> writes pl fl j fs y) xs"
      using writes_step(1) [OF True] Cons.prems by (intro filter_cong) auto
    then show ?thesis
      using True Cons.IH [of ?fs1 es] Cons.prems by (simp add: try_convert_writes)
  qed
qed

lemma put_output_step:
  assumes "writes pl fl j fs x" and "butlast y \<noteq> folder_output_path j"
  shows "put_output pl fl j (AList.update (fst (the (decoded pl fl j fs x)))
                   (File (snd (the (decoded pl fl j fs x)))) fs) y = put_output pl fl j fs y"
  using writes_step_all [OF assms] by (simp add: put_output_def fun_eq_iff)

lemma put_output_update:
  assumes "writes pl fl j fs x"
  shows "map_of (AList.update (fst (the (decoded pl fl j fs x)))
                   (File (snd (the (decoded pl fl j fs x)))) fs)
           = put_output pl fl j fs x (map_of fs)"
proof -
  obtain t b where "decoded pl fl j fs x = Some (t, b)"
    using assms by (auto simp: writes_def split: option.splits)
  then show ?thesis using assms by (simp add: put_output_def update_conv')
qed

lemma decode_loop_fold:
  "\<forall>x \<in> set xs. butlast x \<noteq> folder_output_path j \<Longrightarrow>
     map_of (fst (decode_loop pl fl j fs es xs)) = fold (put_output pl fl j fs) xs (map_of fs)"
proof (induction xs arbitrary: fs es)
  case Nil
  then show ?case by simp
next
  case (Cons x xs)
  show ?case
  proof (cases "writes pl fl j fs x")
    case False
    have "put_output pl fl j fs x (map_of fs) = map_of fs"
      using False by (simp add: put_output_def)
    then show ?thesis
      using False Cons.IH [of fs "es @ [x]"] Cons.prems by (simp add: try_convert_writes)
  next
    case True
    let ?fs1 = "AList.update (fst (the (decoded pl fl j fs x)))
                   (File (snd (the (decoded pl fl j fs x)))) fs"
    have "fold (put_output pl fl j ?fs1) xs (map_of ?fs1)
            = fold (put_output pl fl j fs) xs (map_of ?fs1)"
    proof (rule fold_cong)
      fix y assume "y \<in> set xs"
      then have "butlast y \<noteq> folder_output_path j" using Cons.prems by simp
      then show "put_output pl fl j ?fs1 y = put_output pl fl j fs y"
        by (rule put_output_step [OF True])
    qed simp_all
    moreover have "map_of (fst (decode_loop pl fl j ?fs1 es xs))
                     = fold (put_output pl fl j ?fs1) xs (map_of ?fs1)"
      using Cons.IH [of ?fs1 es] Cons.prems by simp
    ultimately show ?thesis
      using True by (simp add: try_convert_writes put_output_update [OF True])
  qed
qed

lemma fold_put_unchanged:
  "\<forall>x \<in> set xs. writes pl fl j fs x \<longrightarrow> fst (the (decoded pl fl j fs x)) \<noteq> q \<Longrightarrow>
     fold (put_output pl fl j fs) xs m q = m q"
proof (induction xs rule: rev_induct)
  case Nil
  then show ?case by simp
next
  case (snoc x xs)
  then have "fold (put_output pl fl j fs) xs m q = m q" by simp
  moreover have "put_output pl fl j fs x m' q = m' q" for m'
    using snoc.prems by (auto simp: put_output_def split: option.splits)
  ultimately show ?case by simp
qed

lemma put_output_hit:
  "writes pl fl j fs z \<Longrightarrow> decoded pl fl j fs z = Some (t, b) \<Longrightarrow>
     put_output pl fl j fs z m t = Some (File b)"
  by (simp add: put_output_def)

lemma put_output_miss:
  "\<not> (writes pl fl j fs z \<and> fst (the (decoded pl fl j fs z)) = t) \<Longrightarrow>
     put_output pl fl j fs z m t = m t"
  by (auto simp: put_output_def split: option.splits)

lemma fold_put_written:
  "x \<in> set xs \<Longrightarrow> decoded pl fl j fs x = Some (t, b) \<Longrightarrow> writes pl fl j fs x \<Longrightarrow>
   \<forall>y \<in> set xs. writes pl fl j fs y \<longrightarrow> fst (the (decoded pl fl j fs y)) = t \<longrightarrow>
      decoded pl fl j fs y = Some (t, b) \<Longrightarrow>
     fold (put_output pl fl j fs) xs m t = Some (File b)"
proof (induction xs rule: rev_induct)
  case Nil
  then show ?case by simp
next
  case (snoc z zs)
  have step: "fold (put_output pl fl j fs) (zs @ [z]) m t
                = put_output pl fl j fs z (fold (put_output pl fl j fs) zs m) t"
    by simp
  show ?case
  proof (cases "writes pl fl j fs z \<and> fst (the (decoded pl fl j fs z)) = t")
    case True
    have "z \<in> set (zs @ [z])" by simp
    with snoc.prems(4) True have "decoded pl fl j fs z = Some (t, b)" by blast
    with True show ?thesis unfolding step by (intro put_output_hit) simp_all
  next
    case False
    have "x \<noteq> z"
    proof
      assume "x = z"
      with snoc.prems(2,3) have "writes pl fl j fs z \<and> fst (the (decoded pl fl j fs z)) = t"
        by simp
      with False show False by blast
    qed
    with snoc.prems(1) have xin: "x \<in> set zs" by simp
    have "\<forall>y \<in> set zs. writes pl fl j fs y \<longrightarrow> fst (the (decoded pl fl j fs y)) = t \<longrightarrow>
            decoded pl fl j fs y = Some (t, b)"
      using snoc.prems(4) by simp
    with xin snoc.prems(2,3) have "fold (put_output pl fl j fs) zs m t = Some (File b)"
      by (rule snoc.IH)
    then show ?thesis unfolding step using put_output_miss [OF False] by simp
  qed
qed

lemma update_absent: "map_of al k = None \<Longrightarrow> AList.update k v al = al @ [(k, v)]"
  by (induction al) (auto split: if_splits)

lemma staged_path_parent: "butlast (staged_path j x) = wmf_folder j"
  by (simp add: staged_path_def)

lemma staged_path_not_special: "staged_path j x \<noteq> [] \<and> staged_path j x \<noteq> [''/'']"
  by (cases "wmf_folder j") (auto simp: staged_path_def)

lemma copy_loop_exact:
  "is_dir fs (wmf_folder j) \<Longrightarrow>
   \<forall>x \<in> set xs. (\<exists>c. map_of fs x = Some (File c)) \<and> butlast x \<noteq> wmf_folder j \<Longrightarrow>
   \<forall>x \<in> set xs. map_of fs (staged_path j x) = None \<Longrightarrow>
   distinct (map (staged_path j) xs) \<Longrightarrow>
     copy_loop j fs xs = (fs @ map (\<lambda>x. (staged_path j x, the (map_of fs x))) xs, Inr ())"
proof (induction xs arbitrary: fs)
  case Nil
  then show ?case by simp
next
  case (Cons x xs)
  let ?t = "staged_path j x"
  obtain c where c: "map_of fs x = Some (File c)" using Cons.prems(2) by auto
  have xt: "x \<noteq> ?t" using Cons.prems(2) staged_path_parent [of j x] by auto
  have fresh: "map_of fs ?t = None" using Cons.prems(3) by simp
  have nd: "\<not> is_dir fs ?t"
    using fresh staged_path_not_special [of j x] by (simp add: is_dir_def)
  have wr: "write_file fs ?t (File_content) = Inr (fs @ [(?t, File File_content)])"
    for File_content
    using nd Cons.prems(1) fresh
    by (simp add: write_file_def staged_path_parent update_absent)
  have cf: "copyfile fs x ?t = Inr (fs @ [(?t, File c)])"
    using c xt wr by (simp add: copyfile_def)
  let ?fs1 = "fs @ [(?t, File c)]"
  have m1: "map_of ?fs1 q = (if q = ?t then Some (File c) else map_of fs q)" for q
    using fresh by (auto simp: map_add_def split: option.splits)
  have d1: "is_dir ?fs1 (wmf_folder j)"
    using Cons.prems(1) by (auto simp: is_dir_def map_add_def split: option.splits)
  have s1: "\<forall>y \<in> set xs. (\<exists>c. map_of ?fs1 y = Some (File c)) \<and> butlast y \<noteq> wmf_folder j"
  proof
    fix y assume y: "y \<in> set xs"
    then have "butlast y \<noteq> wmf_folder j" using Cons.prems(2) by simp
    then have "y \<noteq> ?t" using staged_path_parent [of j x] by auto
    then show "(\<exists>c. map_of ?fs1 y = Some (File c)) \<and> butlast y \<noteq> wmf_folder j"
      using Cons.prems(2) y m1 [of y] by simp
  qed
  have f1: "\<forall>y \<in> set xs. map_of ?fs1 (staged_path j y) = None"
  proof
    fix y assume y: "y \<in> set xs"
    then have "staged_path j y \<noteq> ?t" using Cons.prems(4) by (auto simp: image_iff)
    then show "map_of ?fs1 (staged_path j y) = None"
      using Cons.prems(3) y m1 [of "staged_path j y"] by simp
  qed
  have same: "map (\<lambda>y. (staged_path j y, the (map_of ?fs1 y))) xs
                = map (\<lambda>y. (staged_path j y, the (map_of fs y))) xs"
  proof (rule map_cong)
    fix y assume "y \<in> set xs"
    then have "butlast y \<noteq> wmf_folder j" using Cons.prems(2) by simp
    then have "y \<noteq> ?t" using staged_path_parent [of j x] by auto
    then show "(staged_path j y, the (map_of ?fs1 y)) = (staged_path j y, the (map_of fs y))"
      using m1 [of y] by simp
  qed simp
  have "copy_loop j ?fs1 xs
          = (?fs1 @ map (\<lambda>y. (staged_path j y, the (map_of ?fs1 y))) xs, Inr ())"
    using Cons.IH [OF d1 s1 f1] Cons.prems(4) by simp
  then show ?case
    using cf c same by (simp add: staged_path_def [symmetric])
qed

lemma suffix_of_length: "suffix_of n \<noteq> [] \<Longrightarrow> length (suffix_of n) < length n"
  by (auto simp: suffix_of_def Let_def split: if_splits)

lemma stem_nonempty:
  assumes "n \<noteq> []"
  shows "stem n \<noteq> []"
proof (cases "suffix_of n = []")
  case True
  then show ?thesis using assms by (simp add: stem_def)
next
  case False
  then show ?thesis using suffix_of_length [OF False] assms by (simp add: stem_def)
qed

lemma suffix_of_wmf: "s \<noteq> [] \<Longrightarrow> suffix_of (s @ ''.wmf'') = ''.wmf''"
  by (simp add: suffix_of_def Let_def)

lemma stem_wmf: "s \<noteq> [] \<Longrightarrow> stem (s @ ''.wmf'') = s"
  by (simp add: stem_def suffix_of_wmf)

lemma ends_with_wmf: "ends_with (s @ ''.wmf'') ''.wmf''"
  by (simp add: ends_with_def)

lemma ends_with_nonempty: "ends_with n (c # pat) \<Longrightarrow> n \<noteq> []"
  by (auto simp: ends_with_def)

lemma output_path_staged:
  assumes "output_path fl j (staged_path j f) = Some t" and "last f \<noteq> []"
  shows "t = output_file j f"
proof -
  have "stem (last (staged_path j f)) = stem (last f)"
    using stem_nonempty [OF assms(2)] by (simp add: staged_path_def stem_wmf)
  then show ?thesis
    using assms(1)
    by (auto simp: output_path_def with_suffix_def output_file_def split: option.splits if_splits)
qed

lemma glob_append_files:
  assumes "is_dir fs d"
  shows "glob (fs @ ys) d suf
           = glob fs d suf
             @ filter (\<lambda>q. q \<noteq> [] \<and> butlast q = d \<and> ends_with (last q) (CHR ''.'' # suf))
                 (map fst ys)"
proof -
  have "is_dir (fs @ ys) d"
    using assms by (auto simp: is_dir_def map_add_def split: option.splits)
  then show ?thesis using assms by (simp add: glob_def)
qed

lemma glob_staged:
  assumes "is_dir fs (wmf_folder j)"
  shows "glob (fs @ map (\<lambda>x. (staged_path j x, v x)) xs) (wmf_folder j) ''wmf''
           = glob fs (wmf_folder j) ''wmf'' @ map (staged_path j) xs"
proof -
  have "filter (\<lambda>q. q \<noteq> [] \<and> butlast q = wmf_folder j \<and> ends_with (last q) ''.wmf'')
          (map (staged_path j) xs) = map (staged_path j) xs"
    by (rule filter_True) (auto simp: staged_path_def ends_with_wmf)
  then show ?thesis
    using glob_append_files [OF assms, of "map (\<lambda>x. (staged_path j x, v x)) xs" "''wmf''"]
    by (simp add: comp_def)
qed

lemma map_of_map_distinct:
  "distinct (map g xs) \<Longrightarrow> f \<in> set xs \<Longrightarrow>
     map_of (map (\<lambda>x. (g x, h x)) xs) (g f) = Some (h f)"
  by (induction xs) (auto simp: image_iff)

lemma map_of_map_absent:
  "k \<notin> g ` set xs \<Longrightarrow> map_of (map (\<lambda>x. (g x, h x)) xs) k = None"
  by (induction xs) auto

lemma staged_path_distinct:
  "distinct (map (\<lambda>f. stem (last f)) xs) \<Longrightarrow> distinct (map (staged_path j) xs)"
proof (induction xs)
  case Nil
  then show ?case by simp
next
  case (Cons x xs)
  have "staged_path j x \<notin> staged_path j ` set xs"
  proof
    assume "staged_path j x \<in> staged_path j ` set xs"
    then obtain y where "y \<in> set xs" "staged_path j x = staged_path j y" by blast
    then have "stem (last x) \<in> (\<lambda>f. stem (last f)) ` set xs"
      by (auto simp: staged_path_def)
    then show False using Cons.prems by simp
  qed
  then show ?case using Cons by simp
qed

lemma staged_fresh:
  assumes "is_dir fs (wmf_folder j)" and "glob fs (wmf_folder j) ''wmf'' = []"
  shows "map_of fs (staged_path j x) = None"
proof (rule ccontr)
  assume "map_of fs (staged_path j x) \<noteq> None"
  then have "staged_path j x \<in> set (glob fs (wmf_folder j) ''wmf'')"
    using assms(1) staged_path_not_special [of j x]
    by (simp add: glob_iff staged_path_parent) (simp add: staged_path_def ends_with_wmf)
  then show False using assms(2) by simp
qed

lemma stage1_exact:
  assumes wf: "wmf_folder j = folder_input_path j @ [''wmf_files'']"
      and ex: "path_exists fs (folder_input_path j)"
      and st_dir: "is_dir fs (wmf_folder j)"
      and no_left: "glob fs (wmf_folder j) ''wmf'' = []"
      and files: "\<forall>f \<in> set (glob fs (folder_input_path j) ''emz''). \<exists>c. map_of fs f = Some (File c)"
      and dist: "distinct (map (\<lambda>f. stem (last f)) (glob fs (folder_input_path j) ''emz''))"
  shows "convert_emz_files_to_wmf j fs = (staged_fs_of j fs, Inr ())"
proof -
  let ?files = "glob fs (folder_input_path j) ''emz''"
  have src: "\<forall>x \<in> set ?files. (\<exists>c. map_of fs x = Some (File c)) \<and> butlast x \<noteq> wmf_folder j"
    using files glob_parent [of _ fs "folder_input_path j" "''emz''"] wf by auto
  have fresh: "\<forall>x \<in> set ?files. map_of fs (staged_path j x) = None"
    using staged_fresh [OF st_dir no_left] by simp
  show ?thesis
    using copy_loop_exact [OF st_dir src fresh staged_path_distinct [OF dist]] ex
    by (simp add: convert_emz_files_to_wmf_def find_files_def staged_fs_of_def)
qed

lemma staged_fs_of_lookup:
  "map_of (staged_fs_of j fs) q =
     (case map_of fs q of
        Some v \<Rightarrow> Some v
      | None \<Rightarrow> map_of (map (\<lambda>x. (staged_path j x, the (map_of fs x)))
                         (glob fs (folder_input_path j) ''emz'')) q)"
  unfolding staged_fs_of_def map_of_append map_add_def
  by (cases "map_of fs q") simp_all

lemma staged_fs_of_old:
  "map_of fs q = Some v \<Longrightarrow> map_of (staged_fs_of j fs) q = Some v"
  by (simp add: staged_fs_of_lookup)

lemma staged_fs_of_other:
  assumes "q \<notin> staged_path j ` set (glob fs (folder_input_path j) ''emz'')"
  shows "map_of (staged_fs_of j fs) q = map_of fs q"
proof (cases "map_of fs q")
  case None
  then show ?thesis
    using map_of_map_absent [OF assms, of "\<lambda>x. the (map_of fs x)"]
    by (simp add: staged_fs_of_lookup)
next
  case (Some v)
  then show ?thesis by (simp add: staged_fs_of_old)
qed

lemma staged_fs_of_copy:
  assumes st_dir: "is_dir fs (wmf_folder j)"
      and no_left: "glob fs (wmf_folder j) ''wmf'' = []"
      and dist: "distinct (map (\<lambda>f. stem (last f)) (glob fs (folder_input_path j) ''emz''))"
      and f: "f \<in> set (glob fs (folder_input_path j) ''emz'')"
      and c: "map_of fs f = Some (File c)"
  shows "map_of (staged_fs_of j fs) (staged_path j f) = Some (File c)"
proof -
  have "map_of (map (\<lambda>x. (staged_path j x, the (map_of fs x)))
                  (glob fs (folder_input_path j) ''emz'')) (staged_path j f)
          = Some (the (map_of fs f))"
    using staged_path_distinct [OF dist] f by (rule map_of_map_distinct)
  moreover have "map_of fs (staged_path j f) = None"
    using st_dir no_left by (rule staged_fresh)
  ultimately show ?thesis
    using c by (simp add: staged_fs_of_lookup)
qed

lemma staged_fs_of_is_dir:
  assumes st_dir: "is_dir fs (wmf_folder j)"
      and no_left: "glob fs (wmf_folder j) ''wmf'' = []"
      and files: "\<forall>f \<in> set (glob fs (folder_input_path j) ''emz''). \<exists>c. map_of fs f = Some (File c)"
      and dist: "distinct (map (\<lambda>f. stem (last f)) (glob fs (folder_input_path j) ''emz''))"
  shows "is_dir (staged_fs_of j fs) q = is_dir fs q"
proof (cases "q \<in> staged_path j ` set (glob fs (folder_input_path j) ''emz'')")
  case False
  then have "map_of (staged_fs_of j fs) q = map_of fs q" by (rule staged_fs_of_other)
  then show ?thesis by (simp add: is_dir_def)
next
  case True
  then obtain f where f: "f \<in> set (glob fs (folder_input_path j) ''emz'')"
    and q: "q = staged_path j f" by blast
  obtain c where c: "map_of fs f = Some (File c)" using files f by blast
  have a: "map_of (staged_fs_of j fs) q = Some (File c)"
    unfolding q using st_dir no_left dist f c by (rule staged_fs_of_copy)
  have b: "map_of fs q = None"
    unfolding q using st_dir no_left by (rule staged_fresh)
  have "q \<noteq> [] \<and> q \<noteq> [''/'']" unfolding q by (rule staged_path_not_special)
  then show ?thesis using a b by (simp add: is_dir_def)
qed

lemma staged_fs_of_glob:
  assumes st_dir: "is_dir fs (wmf_folder j)"
      and no_left: "glob fs (wmf_folder j) ''wmf'' = []"
  shows "glob (staged_fs_of j fs) (wmf_folder j) ''wmf''
           = map (staged_path j) (glob fs (folder_input_path j) ''emz'')"
  unfolding staged_fs_of_def glob_staged [OF st_dir] no_left by simp

section \<open>Counting the output files\<close>

lemma leftover_stage2:
  "convert_wmf_to_specified_output_type demo_pil Posix demo_job leftover_copied_fs
     = (leftover_final_fs, Inr ())"
proof -
  have ex: "path_exists leftover_copied_fs (wmf_folder demo_job)"
    by (simp add: path_exists_def leftover_copied_fs_def leftover_init_fs_def leftover_fs_def
        demo_job_def)
  have gl: "glob leftover_copied_fs (wmf_folder demo_job) ''wmf''
              = [[''in'', ''wmf_files'', ''old.wmf''], [''in'', ''wmf_files'', ''a.wmf'']]"
    by (simp add: glob_def ends_with_def is_dir_def leftover_copied_fs_def leftover_init_fs_def
        leftover_fs_def demo_job_def)
  have lp: "decode_loop demo_pil Posix demo_job leftover_copied_fs []
              (glob leftover_copied_fs (wmf_folder demo_job) ''wmf'')
            = (leftover_copied_fs @ [([''out'', ''old.png''], File (Raw ''png:OLD'')),
                                     ([''out'', ''a.png''], File (Raw ''png:A''))], [])"
    unfolding gl
    by (simp add: demo_simps leftover_copied_fs_def leftover_init_fs_def leftover_fs_def)
  have rm: "rmtree (leftover_copied_fs @ [([''out'', ''old.png''], File (Raw ''png:OLD'')),
                                     ([''out'', ''a.png''], File (Raw ''png:A''))])
              (wmf_folder demo_job) = Inr leftover_final_fs"
    by (simp add: rmtree_def leftover_copied_fs_def leftover_init_fs_def leftover_fs_def
        leftover_final_fs_def demo_job_def)
  show ?thesis
    by (simp add: convert_wmf_to_specified_output_type_def find_files_def ex lp rm)
qed

lemma leftover_run:
  "run demo_pil Posix ''in'' (Some ''out'') ''png'' leftover_fs = (leftover_final_fs, Inr ())"
  by (simp add: run_def leftover_init convert_def leftover_stage1 leftover_stage2)



text \<open>
  Claim C7 as stated fails when the staging directory holds a file from an earlier run:
  the input directory has one \<^verbatim>\<open>.emz\<close> file, every decode succeeds, and the run leaves
  two files in the output directory.
\<close>

theorem run_output_count_counterexample:
  "snd (run demo_pil Posix ''in'' (Some ''out'') ''png'' leftover_fs) = Inr ()
   \<and> glob leftover_fs (Path Posix ''in'') ''emz'' = [[''in'', ''a.emz'']]
   \<and> listdir (fst (run demo_pil Posix ''in'' (Some ''out'') ''png'' leftover_fs))
        (Path Posix ''out'') = [''old.png'', ''a.png'']"
  by (simp add: leftover_run)
    (simp add: glob_def ends_with_def is_dir_def Path_def listdir_def leftover_fs_def
      leftover_final_fs_def)


lemma not_sep_dot: "\<not> is_sep fl CHR ''.''"
  by (cases fl) (simp_all add: backslash_def)

lemma output_path_valid:
  assumes "output_type j \<noteq> []" and "\<forall>c \<in> set (output_type j). \<not> is_sep fl c"
      and "last f \<noteq> []"
  shows "output_path fl j (staged_path j f) = Some (output_file j f)"
proof -
  have st: "stem (last (staged_path j f)) = stem (last f)"
    using stem_nonempty [OF assms(3)] by (simp add: staged_path_def stem_wmf)
  have "with_suffix fl (staged_path j f) (CHR ''.'' # output_type j)
          = Some (butlast (staged_path j f) @ [stem (last (staged_path j f)) @ CHR ''.'' # output_type j])"
    using assms(1,2) staged_path_not_special [of j f] not_sep_dot [of fl]
    by (simp add: with_suffix_def)
  then show ?thesis by (simp add: output_path_def st output_file_def)
qed

lemma glob_name_nonempty: "f \<in> set (glob fs d suf) \<Longrightarrow> last f \<noteq> []"
  using ends_with_nonempty by (auto simp: glob_iff)

lemma not_under_staging:
  assumes "take (length s) out \<noteq> s" and "out @ [n] \<noteq> s"
  shows "take (length s) (out @ [n]) \<noteq> s"
proof
  assume a: "take (length s) (out @ [n]) = s"
  show False
  proof (cases "length s \<le> length out")
    case True
    then show False using a assms(1) by simp
  next
    case False
    then have "take (length s) (out @ [n]) = out @ [n]" by simp
    then show False using a assms(2) by simp
  qed
qed

lemma output_file_inj:
  "output_file j f = output_file j g \<Longrightarrow> stem (last f) = stem (last g)"
  by (simp add: output_file_def)

lemma decoded_staged:
  assumes st_dir: "is_dir fs (wmf_folder j)"
      and no_left: "glob fs (wmf_folder j) ''wmf'' = []"
      and ext: "output_type j \<noteq> []" "\<forall>c \<in> set (output_type j). \<not> is_sep fl c"
      and dist: "distinct (map (\<lambda>f. stem (last f)) (glob fs (folder_input_path j) ''emz''))"
      and f: "f \<in> set (glob fs (folder_input_path j) ''emz'')"
      and c: "map_of fs f = Some (File c)"
  shows "decoded pl fl j (staged_fs_of j fs) (staged_path j f) =
           (case Image_open pl c of
              None \<Rightarrow> None
            | Some img \<Rightarrow>
                (case Image_save pl img (output_file j f) of
                   None \<Rightarrow> None
                 | Some b \<Rightarrow> Some (output_file j f, b)))"
proof -
  have m: "map_of (staged_fs_of j fs) (staged_path j f) = Some (File c)"
    using st_dir no_left dist f c by (rule staged_fs_of_copy)
  have o: "output_path fl j (staged_path j f) = Some (output_file j f)"
    using ext glob_name_nonempty [OF f] by (rule output_path_valid)
  show ?thesis by (simp add: decoded_def m o split: option.splits)
qed

lemma staged_not_output:
  assumes "take (length (wmf_folder j)) (folder_output_path j) \<noteq> wmf_folder j"
  shows "butlast (staged_path j x) \<noteq> folder_output_path j"
proof
  assume "butlast (staged_path j x) = folder_output_path j"
  then have "folder_output_path j = wmf_folder j" by (simp add: staged_path_parent)
  then show False using assms by simp
qed

lemma staged_under_staging:
  "take (length (wmf_folder j)) (staged_path j x) = wmf_folder j"
  by (simp add: staged_path_def)

lemma without_staging_map_of:
  "map_of (without_staging j fs) q
     = (if take (length (wmf_folder j)) q \<noteq> wmf_folder j then map_of fs q else None)"
  by (simp add: without_staging_def map_of_filter_key)

lemma stage2_unfold:
  assumes wf: "wmf_folder j = folder_input_path j @ [''wmf_files'']"
      and st_dir: "is_dir fs (wmf_folder j)"
      and loop: "decode_loop pl fl j fs [] (glob fs (wmf_folder j) ''wmf'') = (fsL, errors)"
  shows "convert_wmf_to_specified_output_type pl fl j fs =
           (if errors \<noteq> []
            then (case write_file (without_staging j fsL) (csv_file fl) (report_table errors) of
                    Inl e \<Rightarrow> (without_staging j fsL, Inl e)
                  | Inr fs3 \<Rightarrow> (fs3, Inl (BatchIncomplete (csv_file fl))))
            else (without_staging j fsL, Inr ()))"
proof -
  have ex: "path_exists fs (wmf_folder j)"
    using st_dir by (auto simp: is_dir_def path_exists_def)
  have "map_of fsL (wmf_folder j) = Some Dir"
    using decode_loop_keeps_dir [OF staging_entry [OF wf st_dir], of pl fl j "[]"
        "glob fs (wmf_folder j) ''wmf''"] loop by simp
  then have rm: "rmtree fsL (wmf_folder j) = Inr (without_staging j fsL)"
    by (simp add: rmtree_dir without_staging_def)
  show ?thesis
    by (simp add: convert_wmf_to_specified_output_type_def find_files_def ex loop rm)
qed

lemma fresh_loop:
  assumes st_dir: "is_dir fs (wmf_folder j)"
      and no_left: "glob fs (wmf_folder j) ''wmf'' = []"
      and out_ns: "take (length (wmf_folder j)) (folder_output_path j) \<noteq> wmf_folder j"
  shows "snd (decode_loop pl fl j (staged_fs_of j fs) []
                (glob (staged_fs_of j fs) (wmf_folder j) ''wmf''))
           = filter (\<lambda>x. \<not> writes pl fl j (staged_fs_of j fs) x)
               (map (staged_path j) (glob fs (folder_input_path j) ''emz''))"
    and "map_of (fst (decode_loop pl fl j (staged_fs_of j fs) []
                (glob (staged_fs_of j fs) (wmf_folder j) ''wmf'')))
           = fold (put_output pl fl j (staged_fs_of j fs))
               (map (staged_path j) (glob fs (folder_input_path j) ''emz''))
               (map_of (staged_fs_of j fs))"
proof -
  let ?batch = "map (staged_path j) (glob fs (folder_input_path j) ''emz'')"
  have gl: "glob (staged_fs_of j fs) (wmf_folder j) ''wmf'' = ?batch"
    using st_dir no_left by (rule staged_fs_of_glob)
  have par: "\<forall>x \<in> set ?batch. butlast x \<noteq> folder_output_path j"
    using staged_not_output [OF out_ns] by auto
  show "snd (decode_loop pl fl j (staged_fs_of j fs) []
                (glob (staged_fs_of j fs) (wmf_folder j) ''wmf''))
           = filter (\<lambda>x. \<not> writes pl fl j (staged_fs_of j fs) x) ?batch"
    unfolding gl using decode_loop_errors [OF par, of pl fl "staged_fs_of j fs" "[]"] by simp
  show "map_of (fst (decode_loop pl fl j (staged_fs_of j fs) []
                (glob (staged_fs_of j fs) (wmf_folder j) ''wmf'')))
           = fold (put_output pl fl j (staged_fs_of j fs)) ?batch (map_of (staged_fs_of j fs))"
    unfolding gl using par by (rule decode_loop_fold)
qed

lemma convert_all_decoded:
  assumes wf: "wmf_folder j = folder_input_path j @ [''wmf_files'']"
      and ex: "path_exists fs (folder_input_path j)"
      and st_dir: "is_dir fs (wmf_folder j)"
      and no_left: "glob fs (wmf_folder j) ''wmf'' = []"
      and out_dir: "is_dir fs (folder_output_path j)"
      and out_ns: "take (length (wmf_folder j)) (folder_output_path j) \<noteq> wmf_folder j"
      and ext: "output_type j \<noteq> []" "\<forall>c \<in> set (output_type j). \<not> is_sep fl c"
      and dist: "distinct (map (\<lambda>f. stem (last f)) (glob fs (folder_input_path j) ''emz''))"
      and ok: "\<forall>f \<in> set (glob fs (folder_input_path j) ''emz'').
                 \<exists>c img b. map_of fs f = Some (File c) \<and> Image_open pl c = Some img
                   \<and> Image_save pl img (output_file j f) = Some b
                   \<and> \<not> is_dir fs (output_file j f)"
  shows "snd (convert pl fl j fs) = Inr ()"
    and "\<forall>f \<in> set (glob fs (folder_input_path j) ''emz'').
           \<exists>c img b. map_of fs f = Some (File c) \<and> Image_open pl c = Some img
             \<and> Image_save pl img (output_file j f) = Some b
             \<and> map_of (fst (convert pl fl j fs)) (output_file j f) = Some (File b)"
    and "\<forall>q. q \<notin> output_file j ` set (glob fs (folder_input_path j) ''emz'') \<longrightarrow>
           map_of (fst (convert pl fl j fs)) q
             = (if take (length (wmf_folder j)) q = wmf_folder j then None else map_of fs q)"
proof -
  let ?files = "glob fs (folder_input_path j) ''emz''"
  let ?fs2 = "staged_fs_of j fs"
  let ?batch = "map (staged_path j) ?files"
  let ?loop = "decode_loop pl fl j ?fs2 [] (glob ?fs2 (wmf_folder j) ''wmf'')"
  have files: "\<forall>f \<in> set ?files. \<exists>c. map_of fs f = Some (File c)"
    using ok by blast
  have s1: "convert_emz_files_to_wmf j fs = (?fs2, Inr ())"
    using wf ex st_dir no_left files dist by (rule stage1_exact)
  have dir2: "is_dir ?fs2 q = is_dir fs q" for q
    using st_dir no_left files dist by (rule staged_fs_of_is_dir)
  have dec: "decoded pl fl j ?fs2 (staged_path j f) = Some (output_file j f, b)"
    if "f \<in> set ?files" "map_of fs f = Some (File c)" "Image_open pl c = Some img"
      "Image_save pl img (output_file j f) = Some b" for f c img b
    using decoded_staged [OF st_dir no_left ext dist that(1,2), of pl] that(3,4) by simp
  have wr: "writes pl fl j ?fs2 (staged_path j f)" if f: "f \<in> set ?files" for f
  proof -
    obtain c img b where o: "map_of fs f = Some (File c)" "Image_open pl c = Some img"
      "Image_save pl img (output_file j f) = Some b" "\<not> is_dir fs (output_file j f)"
      using ok f by blast
    show ?thesis
      using dec [OF f o(1,2,3)] o(4) out_dir by (simp add: writes_def dir2)
  qed
  have errs: "snd ?loop = []"
    unfolding fresh_loop(1) [OF st_dir no_left out_ns] using wr by (simp add: filter_empty_conv)
  have fold: "map_of (fst ?loop) = fold (put_output pl fl j ?fs2) ?batch (map_of ?fs2)"
    using st_dir no_left out_ns by (rule fresh_loop(2))
  have lp: "?loop = (fst ?loop, [])" using errs by (metis prod.collapse)
  have s2: "convert_wmf_to_specified_output_type pl fl j ?fs2
              = (without_staging j (fst ?loop), Inr ())"
    using stage2_unfold [OF wf _ lp] dir2 st_dir by simp
  have conv: "convert pl fl j fs = (without_staging j (fst ?loop), Inr ())"
    by (simp add: convert_def s1 s2)
  show "snd (convert pl fl j fs) = Inr ()" by (simp add: conv)
  have inj: "g = f" if "f \<in> set ?files" "g \<in> set ?files" "output_file j g = output_file j f" for f g
    using dist that output_file_inj [OF that(3)] by (auto simp: distinct_map inj_on_def)
  show "\<forall>f \<in> set ?files.
           \<exists>c img b. map_of fs f = Some (File c) \<and> Image_open pl c = Some img
             \<and> Image_save pl img (output_file j f) = Some b
             \<and> map_of (fst (convert pl fl j fs)) (output_file j f) = Some (File b)"
  proof
    fix f assume f: "f \<in> set ?files"
    obtain c img b where o: "map_of fs f = Some (File c)" "Image_open pl c = Some img"
      "Image_save pl img (output_file j f) = Some b" "\<not> is_dir fs (output_file j f)"
      using ok f by blast
    note d = dec [OF f o(1,2,3)]
    have uq: "\<forall>y \<in> set ?batch. writes pl fl j ?fs2 y \<longrightarrow>
                fst (the (decoded pl fl j ?fs2 y)) = output_file j f \<longrightarrow>
                decoded pl fl j ?fs2 y = Some (output_file j f, b)"
    proof (intro ballI impI)
      fix y assume y: "y \<in> set ?batch"
        and t: "fst (the (decoded pl fl j ?fs2 y)) = output_file j f"
      from y obtain g where g: "g \<in> set ?files" "y = staged_path j g" by auto
      obtain c' img' b' where o': "map_of fs g = Some (File c')" "Image_open pl c' = Some img'"
        "Image_save pl img' (output_file j g) = Some b'"
        using ok g(1) by blast
      have "output_file j g = output_file j f"
        using dec [OF g(1) o'] t g(2) by simp
      then have "g = f" using inj [OF f g(1)] by simp
      then show "decoded pl fl j ?fs2 y = Some (output_file j f, b)"
        using d g(2) by simp
    qed
    have inb: "staged_path j f \<in> set ?batch" using f by simp
    have "fold (put_output pl fl j ?fs2) ?batch (map_of ?fs2) (output_file j f) = Some (File b)"
      using inb d wr [OF f] uq by (rule fold_put_written)
    then have l: "map_of (fst ?loop) (output_file j f) = Some (File b)" by (simp add: fold)
    have "output_file j f \<noteq> wmf_folder j" using o(4) st_dir by auto
    then have "take (length (wmf_folder j)) (output_file j f) \<noteq> wmf_folder j"
      unfolding output_file_def using out_ns by (intro not_under_staging) simp_all
    then have "map_of (fst (convert pl fl j fs)) (output_file j f) = Some (File b)"
      using l by (simp add: conv without_staging_map_of)
    then show "\<exists>c img b. map_of fs f = Some (File c) \<and> Image_open pl c = Some img
             \<and> Image_save pl img (output_file j f) = Some b
             \<and> map_of (fst (convert pl fl j fs)) (output_file j f) = Some (File b)"
      using o by blast
  qed
  show "\<forall>q. q \<notin> output_file j ` set ?files \<longrightarrow>
           map_of (fst (convert pl fl j fs)) q
             = (if take (length (wmf_folder j)) q = wmf_folder j then None else map_of fs q)"
  proof (intro allI impI)
    fix q assume q: "q \<notin> output_file j ` set ?files"
    have "\<forall>x \<in> set ?batch. writes pl fl j ?fs2 x \<longrightarrow> fst (the (decoded pl fl j ?fs2 x)) \<noteq> q"
    proof (intro ballI impI)
      fix x assume "x \<in> set ?batch"
      then obtain g where g: "g \<in> set ?files" "x = staged_path j g" by auto
      obtain c' img' b' where o': "map_of fs g = Some (File c')" "Image_open pl c' = Some img'"
        "Image_save pl img' (output_file j g) = Some b'"
        using ok g(1) by blast
      show "fst (the (decoded pl fl j ?fs2 x)) \<noteq> q"
        using dec [OF g(1) o'] g q by auto
    qed
    then have l: "map_of (fst ?loop) q = map_of ?fs2 q"
      unfolding fold by (rule fold_put_unchanged)
    show "map_of (fst (convert pl fl j fs)) q
             = (if take (length (wmf_folder j)) q = wmf_folder j then None else map_of fs q)"
    proof (cases "take (length (wmf_folder j)) q = wmf_folder j")
      case True
      then show ?thesis by (simp add: conv without_staging_map_of)
    next
      case False
      then have "q \<notin> staged_path j ` set ?files"
        using staged_under_staging [of j] by auto
      then have "map_of ?fs2 q = map_of fs q" by (rule staged_fs_of_other)
      then show ?thesis using False l by (simp add: conv without_staging_map_of)
    qed
  qed
qed

lemma init_path_exists:
  assumes "EmzConverter_init fl folder_input folder_output out_type fs0 = (fs1, Inr j)"
  shows "path_exists fs1 (folder_input_path j)"
proof -
  have "path_exists fs0 (folder_input_path j)"
    using init_facts(3,5) [OF assms] by simp
  then show ?thesis
    using init_keeps [OF assms] by (auto simp: path_exists_def)
qed

lemma output_file_distinct:
  "distinct (map (\<lambda>f. stem (last f)) xs) \<Longrightarrow> distinct (map (output_file j) xs)"
proof (induction xs)
  case Nil
  then show ?case by simp
next
  case (Cons x xs)
  have "output_file j x \<notin> output_file j ` set xs"
  proof
    assume "output_file j x \<in> output_file j ` set xs"
    then obtain y where "y \<in> set xs" "output_file j x = output_file j y" by blast
    then have "stem (last x) \<in> (\<lambda>f. stem (last f)) ` set xs"
      using output_file_inj by blast
    then show False using Cons.prems by simp
  qed
  then show ?case using Cons by simp
qed

text \<open>
  Claim C7, amended. Take a run whose construction succeeded with job \<open>j\<close> and left the
  file system \<open>fs1\<close>, and assume: the staging directory holds no \<^verbatim>\<open>.wmf\<close> entry when
  \<^verbatim>\<open>convert()\<close> starts; the output path is a directory and is neither the staging
  directory nor inside it; the output type is not empty and holds no path separator;
  the \<^verbatim>\<open>.emz\<close> files of the input directory have pairwise different base names; and
  each of them is a regular file that the decoder opens and saves without raising, to
  a target at which no directory sits. Then the run reports success; for each of the
  N \<^verbatim>\<open>.emz\<close> files the output directory holds the decoded bytes under the base name of
  the source followed by a dot and the output type; these N targets are pairwise
  different; every other path is as construction left it, except that everything at or
  below the staging directory is gone; and the staging directory does not exist.
\<close>

theorem run_all_decoded:
  assumes init: "EmzConverter_init fl folder_input folder_output out_type fs0 = (fs1, Inr j)"
      and no_left: "glob fs1 (wmf_folder j) ''wmf'' = []"
      and out_dir: "is_dir fs1 (folder_output_path j)"
      and out_ns: "take (length (wmf_folder j)) (folder_output_path j) \<noteq> wmf_folder j"
      and ext: "out_type \<noteq> []" "\<forall>c \<in> set out_type. \<not> is_sep fl c"
      and dist: "distinct (map (\<lambda>f. stem (last f)) (glob fs1 (folder_input_path j) ''emz''))"
      and ok: "\<forall>f \<in> set (glob fs1 (folder_input_path j) ''emz'').
                 \<exists>c img b. map_of fs1 f = Some (File c) \<and> Image_open pl c = Some img
                   \<and> Image_save pl img (output_file j f) = Some b
                   \<and> \<not> is_dir fs1 (output_file j f)"
  shows "snd (run pl fl folder_input folder_output out_type fs0) = Inr ()
       \<and> (\<forall>f \<in> set (glob fs1 (folder_input_path j) ''emz'').
            \<exists>c img b. map_of fs1 f = Some (File c) \<and> Image_open pl c = Some img
              \<and> Image_save pl img (output_file j f) = Some b
              \<and> map_of (fst (run pl fl folder_input folder_output out_type fs0))
                    (output_file j f) = Some (File b))
       \<and> distinct (map (output_file j) (glob fs1 (folder_input_path j) ''emz''))
       \<and> (\<forall>q. q \<notin> output_file j ` set (glob fs1 (folder_input_path j) ''emz'') \<longrightarrow>
              map_of (fst (run pl fl folder_input folder_output out_type fs0)) q
                = (if take (length (wmf_folder j)) q = wmf_folder j then None else map_of fs1 q))
       \<and> \<not> path_exists (fst (run pl fl folder_input folder_output out_type fs0)) (wmf_folder j)"
proof -
  note wf = init_facts(1) [OF init]
  note st_dir = init_facts(2) [OF init]
  have ot: "output_type j = out_type" using init_facts(4) [OF init] .
  have ext': "output_type j \<noteq> []" "\<forall>c \<in> set (output_type j). \<not> is_sep fl c"
    using ext ot by simp_all
  have run: "run pl fl folder_input folder_output out_type fs0 = convert pl fl j fs1"
    by (simp add: run_def init)
  note c = convert_all_decoded [OF wf init_path_exists [OF init] st_dir no_left out_dir out_ns
      ext' dist ok]
  have "wmf_folder j \<notin> output_file j ` set (glob fs1 (folder_input_path j) ''emz'')"
    using ok st_dir by auto
  then have "map_of (fst (convert pl fl j fs1)) (wmf_folder j) = None"
    using c(3) by simp
  moreover have "wmf_folder j \<noteq> [] \<and> wmf_folder j \<noteq> [''/'']" using wf by auto
  ultimately have gone: "\<not> path_exists (fst (convert pl fl j fs1)) (wmf_folder j)"
    by (simp add: path_exists_def)
  show ?thesis
    unfolding run using c gone output_file_distinct [OF dist] by blast
qed

lemma pair_init:
  "EmzConverter_init Posix ''in'' (Some ''out'') ''png'' pair_fs = (pair_init_fs, Inr demo_job)"
  by (simp add: EmzConverter_init_def check_paths_def Path_def path_exists_def is_dir_def
      Path_mkdir.simps pair_fs_def pair_init_fs_def demo_job_def Let_def)

lemma pair_emz_glob:
  "glob pair_init_fs (folder_input_path demo_job) ''emz'' = [[''in'', ''a.emz''], [''in'', ''b.emz'']]"
  by (simp add: glob_def ends_with_def is_dir_def pair_init_fs_def pair_fs_def demo_job_def)

theorem run_all_decoded_witness:
  "EmzConverter_init Posix ''in'' (Some ''out'') ''png'' pair_fs = (pair_init_fs, Inr demo_job)
   \<and> glob pair_init_fs (wmf_folder demo_job) ''wmf'' = []
   \<and> is_dir pair_init_fs (folder_output_path demo_job)
   \<and> glob pair_init_fs (folder_input_path demo_job) ''emz''
       = [[''in'', ''a.emz''], [''in'', ''b.emz'']]
   \<and> snd (run demo_pil Posix ''in'' (Some ''out'') ''png'' pair_fs) = Inr ()
   \<and> map_of (fst (run demo_pil Posix ''in'' (Some ''out'') ''png'' pair_fs)) [''out'', ''a.png'']
       = Some (File (Raw ''png:A''))
   \<and> map_of (fst (run demo_pil Posix ''in'' (Some ''out'') ''png'' pair_fs)) [''out'', ''b.png'']
       = Some (File (Raw ''png:B''))
   \<and> \<not> path_exists (fst (run demo_pil Posix ''in'' (Some ''out'') ''png'' pair_fs))
         [''in'', ''wmf_files'']"
proof -
  have no_left: "glob pair_init_fs (wmf_folder demo_job) ''wmf'' = []"
    by (simp add: glob_def ends_with_def is_dir_def pair_init_fs_def pair_fs_def demo_job_def)
  have out_dir: "is_dir pair_init_fs (folder_output_path demo_job)"
    by (simp add: is_dir_def pair_init_fs_def pair_fs_def demo_job_def)
  have out_ns: "take (length (wmf_folder demo_job)) (folder_output_path demo_job)
                  \<noteq> wmf_folder demo_job"
    by (simp add: demo_job_def)
  have ext: "''png'' \<noteq> []" "\<forall>c \<in> set ''png''. \<not> is_sep Posix c" by simp_all
  have dist: "distinct (map (\<lambda>f. stem (last f))
                 (glob pair_init_fs (folder_input_path demo_job) ''emz''))"
    by (simp add: pair_emz_glob stem_def suffix_of_def)
  have of_a: "output_file demo_job [''in'', ''a.emz''] = [''out'', ''a.png'']"
    and of_b: "output_file demo_job [''in'', ''b.emz''] = [''out'', ''b.png'']"
    by (simp_all add: output_file_def demo_job_def stem_def suffix_of_def)
  have ok: "\<forall>f \<in> set (glob pair_init_fs (folder_input_path demo_job) ''emz'').
                 \<exists>c img b. map_of pair_init_fs f = Some (File c)
                   \<and> Image_open demo_pil c = Some img
                   \<and> Image_save demo_pil img (output_file demo_job f) = Some b
                   \<and> \<not> is_dir pair_init_fs (output_file demo_job f)"
    by (simp add: pair_emz_glob of_a of_b)
      (simp add: pair_init_fs_def pair_fs_def demo_pil_def is_dir_def)
  note r = run_all_decoded [OF pair_init no_left out_dir out_ns ext dist ok]
  have a: "map_of (fst (run demo_pil Posix ''in'' (Some ''out'') ''png'' pair_fs))
             [''out'', ''a.png''] = Some (File (Raw ''png:A''))"
  proof -
    have "[''in'', ''a.emz''] \<in> set (glob pair_init_fs (folder_input_path demo_job) ''emz'')"
      by (simp add: pair_emz_glob)
    with r obtain c img b where
      "map_of pair_init_fs [''in'', ''a.emz''] = Some (File c)" "Image_open demo_pil c = Some img"
      "Image_save demo_pil img (output_file demo_job [''in'', ''a.emz'']) = Some b"
      "map_of (fst (run demo_pil Posix ''in'' (Some ''out'') ''png'' pair_fs))
         (output_file demo_job [''in'', ''a.emz'']) = Some (File b)"
      by blast
    then show ?thesis
      by (auto simp: of_a pair_init_fs_def pair_fs_def demo_pil_def split: if_splits)
  qed
  have b: "map_of (fst (run demo_pil Posix ''in'' (Some ''out'') ''png'' pair_fs))
             [''out'', ''b.png''] = Some (File (Raw ''png:B''))"
  proof -
    have "[''in'', ''b.emz''] \<in> set (glob pair_init_fs (folder_input_path demo_job) ''emz'')"
      by (simp add: pair_emz_glob)
    with r obtain c img b where
      "map_of pair_init_fs [''in'', ''b.emz''] = Some (File c)" "Image_open demo_pil c = Some img"
      "Image_save demo_pil img (output_file demo_job [''in'', ''b.emz'']) = Some b"
      "map_of (fst (run demo_pil Posix ''in'' (Some ''out'') ''png'' pair_fs))
         (output_file demo_job [''in'', ''b.emz'']) = Some (File b)"
      by blast
    then show ?thesis
      by (auto simp: of_b pair_init_fs_def pair_fs_def demo_pil_def split: if_splits)
  qed
  have "wmf_folder demo_job = [''in'', ''wmf_files'']" by (simp add: demo_job_def)
  then show ?thesis
    using r a b pair_init no_left out_dir pair_emz_glob by simp
qed
























section \<open>Leftover files in the result of a run\<close>











section \<open>Running twice\<close>














end
